theory Spec2Isabelle
  imports Complex_Main "HOL-Library.Multiset"
begin

section \<open>Price rounding (\<open>Sniper._round_price\<close>, sniper.py 407-419)\<close>

text \<open>
  Python's \<open>//\<close> on \<open>int\<close> is floor division, which is \<open>div\<close> on \<^typ>\<open>int\<close>;
  Python integers are unbounded. The branches are in the order of the source's
  \<open>if\<close>/\<open>elif\<close> chain.
\<close>

definition round_price :: "int \<Rightarrow> int" where
  "round_price price =
     (if price < 1000 then (price div 50) * 50
      else if price < 10000 then (price div 100) * 100
      else if price < 50000 then (price div 250) * 250
      else if price < 100000 then (price div 500) * 500
      else (price div 1000) * 1000)"

text \<open>
  The step table as the specification words it: 50 below 1,000; 100 below 10,000;
  250 below 50,000; 500 below 100,000; 1,000 at or above 100,000. A boundary belongs to
  the tier with the larger step.
\<close>

definition price_step :: "int \<Rightarrow> int" where
  "price_step price =
     (if price < 1000 then 50
      else if price < 10000 then 100
      else if price < 50000 then 250
      else if price < 100000 then 500
      else 1000)"


section \<open>Statistics (\<open>SniperStats\<close>, sniper.py 51-70)\<close>

text \<open>
  \<open>started_at\<close> is a \<open>datetime\<close>; it is kept as microseconds since the epoch.
  \<open>roi\<close> is a Python \<open>float\<close>: the model computes it in exact rational arithmetic
  (\<open>/\<close> on two \<open>int\<close>s is true division), so it is the value the float approximates.
\<close>

record SniperStats =
  started_at :: "int option"
  total_searches :: int
  total_purchases :: int
  total_sales :: int
  total_spent :: int
  total_earned :: int
  failed_purchases :: int



text \<open>\<open>SniperStats()\<close>: every counter at its default.\<close>

definition SniperStats_init :: SniperStats where
  "SniperStats_init =
     \<lparr>started_at = None, total_searches = 0, total_purchases = 0, total_sales = 0,
      total_spent = 0, total_earned = 0, failed_purchases = 0\<rparr>"


section \<open>Listings, filters and targets (client.py 19-52, sniper.py 73-86)\<close>

record Player =
  trade_id :: int
  asset_id :: int
  resource_id :: int
  name :: string
  rating :: int
  position :: string
  buy_now_price :: int
  current_bid :: int
  expires :: int
  seller_established :: bool

record SearchFilter =
  player_id :: "int option"
  min_price :: "int option"
  max_price :: "int option"
  min_buy :: "int option"
  max_buy :: "int option"
  quality :: "string option"
  position :: "string option"
  nation :: "int option"
  league :: "int option"
  club :: "int option"
  rarity_id :: "int option"

text \<open>\<open>SearchFilter()\<close>: every constraint absent.\<close>

definition SearchFilter_init :: SearchFilter where
  "SearchFilter_init =
     \<lparr>player_id = None, min_price = None, max_price = None, min_buy = None,
      max_buy = None, quality = None, position = None, nation = None, league = None,
      club = None, rarity_id = None\<rparr>"

text \<open>The field \<open>filter\<close> of the source is \<open>filter_t\<close> here (\<open>filter\<close> is the list function).\<close>

record SnipeTarget =
  name :: string
  filter_t :: SearchFilter
  max_buy_price :: int
  sell_price :: "int option"
  enabled :: bool
  priority :: int
  searches :: int
  found :: int
  bought :: int

text \<open>
  \<open>SnipeTarget(name, filter, max_buy_price, priority=p)\<close>: the other fields at the
  defaults of the dataclass.
\<close>

definition SnipeTarget_init :: "string \<Rightarrow> SearchFilter \<Rightarrow> int \<Rightarrow> int \<Rightarrow> SnipeTarget" where
  "SnipeTarget_init n f m p =
     \<lparr>name = n, filter_t = f, max_buy_price = m, sell_price = None, enabled = True,
      priority = p, searches = 0, found = 0, bought = 0\<rparr>"


section \<open>The target registry (\<open>add_target\<close>, \<open>remove_target\<close>, sniper.py 124-132)\<close>

text \<open>
  \<open>list.sort(key=lambda t: t.priority, reverse=True)\<close> is a stable sort; with
  \<open>reverse=True\<close> elements with equal keys keep their original order. That is the stable
  ascending sort on the negated key, and \<^const>\<open>sort_key\<close> is a stable (insertion) sort.
\<close>

definition add_target :: "SnipeTarget list \<Rightarrow> SnipeTarget \<Rightarrow> SnipeTarget list" where
  "add_target targets target = sort_key (\<lambda>t. - priority t) (targets @ [target])"

definition remove_target :: "SnipeTarget list \<Rightarrow> string \<Rightarrow> SnipeTarget list" where
  "remove_target targets n = filter (\<lambda>t. SnipeTarget.name t \<noteq> n) targets"

datatype registry_op = Add SnipeTarget | Remove string

fun registry_step :: "SnipeTarget list \<Rightarrow> registry_op \<Rightarrow> SnipeTarget list" where
  "registry_step targets (Add t) = add_target targets t"
| "registry_step targets (Remove n) = remove_target targets n"

text \<open>The registry after a sequence of calls on a fresh engine (\<open>self.targets = []\<close>).\<close>

definition registry_after :: "registry_op list \<Rightarrow> SnipeTarget list" where
  "registry_after ops = foldl registry_step [] ops"

text \<open>
  The same calls without the sort: the targets still registered, in the order in which
  they were added. This is the reference for "original insertion order".
\<close>

fun insertion_step :: "SnipeTarget list \<Rightarrow> registry_op \<Rightarrow> SnipeTarget list" where
  "insertion_step targets (Add t) = targets @ [t]"
| "insertion_step targets (Remove n) = filter (\<lambda>t. SnipeTarget.name t \<noteq> n) targets"

definition insertion_order :: "registry_op list \<Rightarrow> SnipeTarget list" where
  "insertion_order ops = foldl insertion_step [] ops"


section \<open>The market client (\<open>EAClient\<close>, client.py)\<close>

text \<open>
  The exception classes of client.py 377-399; \<open>OtherException\<close> stands for any other
  subclass of \<open>Exception\<close> (a JSON decoding error, a \<open>KeyError\<close>, \dots).
\<close>

datatype exn =
  AuthError | CaptchaError | RateLimitError | TransferBanError | NetworkError | EAError
  | OtherException

text \<open>
  What the remote service does with one HTTP request: the transport fails
  (\<open>httpx.RequestError\<close>), or a response arrives with a status code. The body of a response
  is kept as the value the calling method reads from the decoded JSON (for instance
  \<open>response.get("credits", 0)\<close>), or \<open>None\<close> when \<open>response.json()\<close> or that read
  raises. The statuses are tested in the order of \<open>_request\<close> (client.py 143-159).
\<close>

datatype 'a http = RequestError | Response int "'a option"

definition request :: "'a http \<Rightarrow> exn + 'a" where
  "request r =
     (case r of
        RequestError \<Rightarrow> Inl NetworkError
      | Response status_code body \<Rightarrow>
          if status_code = 200 then (case body of Some b \<Rightarrow> Inr b | None \<Rightarrow> Inl OtherException)
          else if status_code = 401 then Inl AuthError
          else if status_code = 426 then Inl CaptchaError
          else if status_code = 429 then Inl RateLimitError
          else if status_code = 458 then Inl TransferBanError
          else Inl EAError)"

text \<open>An entry of the unassigned pile: the keys \<open>"resourceId"\<close> and \<open>"id"\<close>, each possibly absent.\<close>

record Item =
  resourceId :: "int option"
  item_id :: "int option"

text \<open>
  The environment of the engine: the remote service behind each endpoint, as a function of
  a state \<open>'w\<close> of the outside world that every request may change, and the wall clock
  (\<open>datetime.now()\<close>, in microseconds). The bodies are: the credits; the listings that
  \<open>search\<close> parses from \<open>auctionInfo\<close> (entries that fail to parse are dropped there); the
  truth value of \<open>response.get("auctionInfo")\<close> of a bid; the \<open>itemData\<close> list; the truth
  value of \<open>itemData\<close> after a move; the \<open>id\<close> of a new auction; the length of the trade pile.
\<close>

record 'w environment =
  GET_user_credits :: "'w \<Rightarrow> int http \<times> 'w"
  GET_transfermarket :: "SearchFilter \<Rightarrow> 'w \<Rightarrow> Player list http \<times> 'w"
  PUT_trade_bid :: "int \<Rightarrow> int \<Rightarrow> 'w \<Rightarrow> bool http \<times> 'w"
  GET_purchased_items :: "'w \<Rightarrow> Item list http \<times> 'w"
  PUT_item :: "int \<Rightarrow> 'w \<Rightarrow> bool http \<times> 'w"
  POST_auctionhouse :: "int \<Rightarrow> int \<Rightarrow> int \<Rightarrow> int \<Rightarrow> 'w \<Rightarrow> int option http \<times> 'w"
  GET_tradepile :: "'w \<Rightarrow> nat http \<times> 'w"
  datetime_now :: "'w \<Rightarrow> int \<times> 'w"

text \<open>
  The client's own counters. The request spacing of \<open>_request\<close> (a sleep that depends on
  the wall clock and a random number) and its request counter are not modelled.
\<close>

record EAClient =
  coins :: int
  purchases_count :: int


section \<open>The engine (\<open>Sniper\<close>, sniper.py)\<close>

datatype SniperState = STOPPED | RUNNING | PAUSED | ERROR

text \<open>The \<open>float\<close> fields (durations in seconds, the markup) are rationals.\<close>

record SniperConfig =
  search_interval :: rat
  buy_delay :: rat
  max_purchases :: int
  max_active_sales :: int
  min_coins_reserve :: int
  auto_sell :: bool
  sell_markup :: rat
  sell_duration :: int
  pause_after_purchases :: int
  pause_duration :: rat
  max_searches_per_hour :: int
  auto_relist :: bool
  relist_interval :: rat

definition SniperConfig_init :: SniperConfig where
  "SniperConfig_init =
     \<lparr>search_interval = 3, buy_delay = 1 / 5, max_purchases = 100, max_active_sales = 50,
      min_coins_reserve = 10000, auto_sell = True, sell_markup = 11 / 10,
      sell_duration = 3600, pause_after_purchases = 5, pause_duration = 30,
      max_searches_per_hour = 500, auto_relist = True, relist_interval = 300\<rparr>"

text \<open>
  The engine together with the client it holds and the outside world. A callback is
  \<open>None\<close> when it was not given; a given callback returns \<open>Some e\<close> when it raises \<open>e\<close>.
  \<open>search_task\<close> and \<open>relist_task\<close> tell whether the loop tasks exist. Calls that other
  tasks make at the suspension points of a loop are not modelled.
\<close>

record 'w Sniper =
  client :: EAClient
  config :: SniperConfig
  on_purchase :: "(Player \<Rightarrow> int \<Rightarrow> exn option) option"
  on_error :: "(exn \<Rightarrow> exn option) option"
  state :: SniperState
  stats :: SniperStats
  targets :: "SnipeTarget list"
  search_task :: bool
  relist_task :: bool
  stop_event :: bool
  hourly_searches :: int
  hour_start :: int
  world :: 'w

text \<open>\<open>Sniper(client, config, on_purchase, on_error)\<close> at time \<open>now\<close> (sniper.py 96-122).\<close>

definition Sniper_init ::
  "SniperConfig \<Rightarrow> (Player \<Rightarrow> int \<Rightarrow> exn option) option \<Rightarrow> (exn \<Rightarrow> exn option) option
     \<Rightarrow> int \<Rightarrow> 'w \<Rightarrow> 'w Sniper" where
  "Sniper_init cfg purchase_cb error_cb now w =
     \<lparr>client = \<lparr>coins = 0, purchases_count = 0\<rparr>, config = cfg, on_purchase = purchase_cb,
      on_error = error_cb, state = STOPPED, stats = SniperStats_init, targets = [],
      search_task = False, relist_task = False, stop_event = False, hourly_searches = 0,
      hour_start = now, world = w\<rparr>"

definition pause :: "'w Sniper \<Rightarrow> 'w Sniper" where
  "pause s = s\<lparr>state := PAUSED\<rparr>"

definition resume :: "'w Sniper \<Rightarrow> 'w Sniper" where
  "resume s = s\<lparr>state := RUNNING\<rparr>"


subsection \<open>The client's operations, on the client of the engine\<close>

definition get_credits :: "'w environment \<Rightarrow> 'w Sniper \<Rightarrow> (exn + int) \<times> 'w Sniper" where
  "get_credits env s =
     (let (r, w) = GET_user_credits env (world s) in
      case request r of
        Inl e \<Rightarrow> (Inl e, s\<lparr>world := w\<rparr>)
      | Inr credits \<Rightarrow> (Inr credits, s\<lparr>client := (client s)\<lparr>coins := credits\<rparr>, world := w\<rparr>))"

definition get_tradepile :: "'w environment \<Rightarrow> 'w Sniper \<Rightarrow> (exn + nat) \<times> 'w Sniper" where
  "get_tradepile env s =
     (let (r, w) = GET_tradepile env (world s) in (request r, s\<lparr>world := w\<rparr>))"

definition get_unassigned :: "'w environment \<Rightarrow> 'w Sniper \<Rightarrow> (exn + Item list) \<times> 'w Sniper" where
  "get_unassigned env s =
     (let (r, w) = GET_purchased_items env (world s) in (request r, s\<lparr>world := w\<rparr>))"

definition search :: "'w environment \<Rightarrow> SearchFilter \<Rightarrow> 'w Sniper \<Rightarrow> (exn + Player list) \<times> 'w Sniper" where
  "search env f s =
     (let (r, w) = GET_transfermarket env f (world s) in (request r, s\<lparr>world := w\<rparr>))"

text \<open>
  \<open>buy_now\<close> (client.py 246-268): the request is inside \<open>try\<close>, and \<open>except Exception\<close>
  turns every exception into the result \<open>False\<close>.
\<close>

definition buy_now :: "'w environment \<Rightarrow> int \<Rightarrow> int \<Rightarrow> 'w Sniper \<Rightarrow> bool \<times> 'w Sniper" where
  "buy_now env tid price s =
     (let (r, w) = PUT_trade_bid env tid price (world s) in
      case request r of
        Inr auctionInfo \<Rightarrow>
          if auctionInfo
          then (True, s\<lparr>client := (client s)\<lparr>purchases_count := purchases_count (client s) + 1\<rparr>,
                        world := w\<rparr>)
          else (False, s\<lparr>world := w\<rparr>)
      | Inl e \<Rightarrow> (False, s\<lparr>world := w\<rparr>))"

definition send_to_tradepile :: "'w environment \<Rightarrow> int \<Rightarrow> 'w Sniper \<Rightarrow> bool \<times> 'w Sniper" where
  "send_to_tradepile env iid s =
     (let (r, w) = PUT_item env iid (world s) in
      case request r of
        Inr itemData \<Rightarrow> (itemData, s\<lparr>world := w\<rparr>)
      | Inl e \<Rightarrow> (False, s\<lparr>world := w\<rparr>))"

definition list_item ::
  "'w environment \<Rightarrow> int \<Rightarrow> int \<Rightarrow> int \<Rightarrow> int \<Rightarrow> 'w Sniper \<Rightarrow> int option \<times> 'w Sniper" where
  "list_item env iid start_price bin_price duration s =
     (let (r, w) = POST_auctionhouse env iid start_price bin_price duration (world s) in
      case request r of
        Inr new_id \<Rightarrow> (new_id, s\<lparr>world := w\<rparr>)
      | Inl e \<Rightarrow> (None, s\<lparr>world := w\<rparr>))"


subsection \<open>The calls an engine makes, in order\<close>

text \<open>
  Every function of the engine returns, beside its result and the new state, the list of
  the calls it made on the client, the callbacks and \<open>asyncio.sleep\<close>, in order, each with
  its outcome where one is read: the balance returned by \<open>get_credits\<close>, the result of
  \<open>buy_now\<close>.
\<close>

datatype event =
    Search SearchFilter
  | GetCredits "exn + int"
  | BuyNow int int bool
  | OnPurchase Player int
  | GetUnassigned
  | SendToTradepile int
  | ListItem int int int int
  | GetTradepile
  | OnError exn
  | Sleep rat

fun is_buy :: "event \<Rightarrow> bool" where
  "is_buy (BuyNow tid price ok) = True"
| "is_buy e = False"

fun is_purchase :: "event \<Rightarrow> bool" where
  "is_purchase (BuyNow tid price ok) = ok"
| "is_purchase e = False"


subsection \<open>Auto-sell (\<open>_auto_sell_player\<close>, sniper.py 311-351)\<close>

text \<open>\<open>int(x)\<close> on a float truncates towards zero.\<close>

definition py_int :: "rat \<Rightarrow> int" where
  "py_int x = (if 0 \<le> x then \<lfloor>x\<rfloor> else \<lceil>x\<rceil>)"

definition auto_sell_player ::
  "'w environment \<Rightarrow> Player \<Rightarrow> SnipeTarget \<Rightarrow> 'w Sniper \<Rightarrow> (exn + unit) \<times> 'w Sniper \<times> event list" where
  "auto_sell_player env player target s =
     (let (r, s1) = get_unassigned env s in
      case r of
        Inl e \<Rightarrow> (Inl e, s1, [GetUnassigned])
      | Inr unassigned \<Rightarrow>
          if unassigned = [] then (Inr (), s1, [GetUnassigned])
          else
            (case find (\<lambda>item. resourceId item = Some (resource_id player)) unassigned of
               None \<Rightarrow> (Inr (), s1, [GetUnassigned])
             | Some item \<Rightarrow>
                 (case item_id item of
                    None \<Rightarrow> (Inl OtherException, s1, [GetUnassigned])
                  | Some iid \<Rightarrow>
                      let (moved, s2) = send_to_tradepile env iid s1;
                          asked =
                            (case sell_price target of
                               Some p \<Rightarrow>
                                 if p \<noteq> 0 then p
                                 else py_int (of_int (buy_now_price player) * sell_markup (config s))
                             | None \<Rightarrow>
                                 py_int (of_int (buy_now_price player) * sell_markup (config s)));
                          sell = round_price asked;
                          start_price = round_price (py_int (of_int sell * (9 / 10)));
                          (new_id, s3) =
                            list_item env iid start_price sell (sell_duration (config s)) s2
                      in (Inr (), s3,
                          [GetUnassigned, SendToTradepile iid, Sleep (1 / 2),
                           ListItem iid start_price sell (sell_duration (config s))]))))"


subsection \<open>One search-and-buy cycle (\<open>_search_and_buy\<close>, sniper.py 253-309)\<close>

text \<open>
  The branch \<open>if success:\<close> (sniper.py 285-303) for the listing just bought: the counters,
  the callback, auto-sell, \<open>return True\<close>. An exception of the callback or of auto-sell
  leaves the cycle in place of the result.
\<close>

definition purchase_succeeded ::
  "'w environment \<Rightarrow> SnipeTarget \<Rightarrow> Player \<Rightarrow> 'w Sniper
     \<Rightarrow> (exn + bool) \<times> SnipeTarget \<times> 'w Sniper \<times> event list" where
  "purchase_succeeded env target player s =
     (let target1 = target\<lparr>bought := bought target + 1\<rparr>;
          s1 = s\<lparr>stats := (stats s)\<lparr>total_purchases := total_purchases (stats s) + 1,
                                   total_spent := total_spent (stats s) + buy_now_price player\<rparr>\<rparr>
      in
      case on_purchase s1 of
        None \<Rightarrow>
          if auto_sell (config s1) then
            (let (r, s2, evs) = auto_sell_player env player target1 s1 in
             case r of
               Inl e \<Rightarrow> (Inl e, target1, s2, evs)
             | Inr u \<Rightarrow> (Inr True, target1, s2, evs))
          else (Inr True, target1, s1, [])
      | Some callback \<Rightarrow>
          (case callback player (buy_now_price player) of
             Some e \<Rightarrow> (Inl e, target1, s1, [OnPurchase player (buy_now_price player)])
           | None \<Rightarrow>
               if auto_sell (config s1) then
                 (let (r, s2, evs) = auto_sell_player env player target1 s1 in
                  case r of
                    Inl e \<Rightarrow> (Inl e, target1, s2, OnPurchase player (buy_now_price player) # evs)
                  | Inr u \<Rightarrow>
                      (Inr True, target1, s2, OnPurchase player (buy_now_price player) # evs))
               else (Inr True, target1, s1, [OnPurchase player (buy_now_price player)])))"

text \<open>The loop \<open>for player in snipeable\<close> (sniper.py 275-309); \<open>break\<close> leads to \<open>return False\<close>.\<close>

fun buy_candidates ::
  "'w environment \<Rightarrow> SnipeTarget \<Rightarrow> Player list \<Rightarrow> 'w Sniper
     \<Rightarrow> (exn + bool) \<times> SnipeTarget \<times> 'w Sniper \<times> event list" where
  "buy_candidates env target [] s = (Inr False, target, s, [])"
| "buy_candidates env target (player # rest) s =
     (case get_credits env s of
        (Inl e, s1) \<Rightarrow> (Inl e, target, s1, [GetCredits (Inl e)])
      | (Inr balance, s1) \<Rightarrow>
          if balance < buy_now_price player + min_coins_reserve (config s1)
          then (Inr False, target, s1, [GetCredits (Inr balance)])
          else
            (case buy_now env (trade_id player) (buy_now_price player) s1 of
               (True, s2) \<Rightarrow>
                 (case purchase_succeeded env target player s2 of
                    (r, target1, s3, evs) \<Rightarrow>
                      (r, target1, s3,
                       GetCredits (Inr balance)
                       # BuyNow (trade_id player) (buy_now_price player) True # evs))
             | (False, s2) \<Rightarrow>
                 (case buy_candidates env target rest
                         (s2\<lparr>stats := (stats s2)\<lparr>failed_purchases :=
                                                    failed_purchases (stats s2) + 1\<rparr>\<rparr>) of
                    (r, target1, s3, evs) \<Rightarrow>
                      (r, target1, s3,
                       GetCredits (Inr balance)
                       # BuyNow (trade_id player) (buy_now_price player) False
                       # Sleep (buy_delay (config s2)) # evs))))"

definition snipeable :: "SnipeTarget \<Rightarrow> Player list \<Rightarrow> Player list" where
  "snipeable target players =
     filter (\<lambda>p. buy_now_price p > 0 \<and> buy_now_price p \<le> max_buy_price target) players"

definition search_and_buy ::
  "'w environment \<Rightarrow> SnipeTarget \<Rightarrow> 'w Sniper
     \<Rightarrow> (exn + bool) \<times> SnipeTarget \<times> 'w Sniper \<times> event list" where
  "search_and_buy env target s =
     (let target1 = target\<lparr>searches := searches target + 1\<rparr>;
          s1 = s\<lparr>stats := (stats s)\<lparr>total_searches := total_searches (stats s) + 1\<rparr>,
                 hourly_searches := hourly_searches s + 1\<rparr>
      in
      case search env (filter_t target1) s1 of
        (Inl e, s2) \<Rightarrow> (Inl e, target1, s2, [Search (filter_t target1)])
      | (Inr players, s2) \<Rightarrow>
          if players = [] then (Inr False, target1, s2, [Search (filter_t target1)])
          else
            (let target2 =
                   (if snipeable target1 players \<noteq> []
                    then target1\<lparr>found := found target1 + int (length (snipeable target1 players))\<rparr>
                    else target1)
             in
             case buy_candidates env target2 (snipeable target1 players) s2 of
               (r, target3, s3, evs) \<Rightarrow> (r, target3, s3, Search (filter_t target1) # evs)))"


subsection \<open>The pass over the targets in the search loop (sniper.py 209-229)\<close>

text \<open>
  \<open>cp\<close> is the local variable \<open>consecutive_purchases\<close> of \<open>_search_loop\<close>. The targets are
  the objects of \<open>self.targets\<close>; the pass returns them with their counters updated. It ends
  early with \<open>Inr ()\<close> at \<open>break\<close> and with \<open>Inl e\<close> when a cycle raises \<open>e\<close>.
\<close>

fun search_targets ::
  "'w environment \<Rightarrow> SnipeTarget list \<Rightarrow> int \<Rightarrow> 'w Sniper
     \<Rightarrow> (exn + unit) \<times> SnipeTarget list \<times> int \<times> 'w Sniper \<times> event list" where
  "search_targets env [] cp s = (Inr (), [], cp, s, [])"
| "search_targets env (target # rest) cp s =
     (if \<not> enabled target then
        (case search_targets env rest cp s of
           (r, rest1, cp1, s1, evs) \<Rightarrow> (r, target # rest1, cp1, s1, evs))
      else if stop_event s then (Inr (), target # rest, cp, s, [])
      else
        (case search_and_buy env target s of
           (Inl e, target1, s1, evs) \<Rightarrow> (Inl e, target1 # rest, cp, s1, evs)
         | (Inr was_bought, target1, s1, evs) \<Rightarrow>
             (let (cp1, pause_evs) =
                    (if was_bought then
                       (if cp + 1 \<ge> pause_after_purchases (config s1)
                        then (0, [Sleep (pause_duration (config s1))])
                        else (cp + 1, []))
                     else (cp, []))
              in
              case search_targets env rest cp1 s1 of
                (r, rest1, cp2, s2, evs2) \<Rightarrow>
                  (r, target1 # rest1, cp2, s2,
                   evs @ pause_evs @ Sleep (search_interval (config s1)) # evs2))))"


subsection \<open>One iteration of the search loop (\<open>_check_limits\<close>, \<open>_search_loop\<close>)\<close>

text \<open>
  \<open>_check_limits\<close> (sniper.py 382-405). \<open>(now - self._hour_start).seconds\<close> is the seconds
  field of the normalised \<open>timedelta\<close>: whole seconds modulo one day.
\<close>

definition check_limits :: "'w environment \<Rightarrow> 'w Sniper \<Rightarrow> (exn + bool) \<times> 'w Sniper \<times> event list" where
  "check_limits env s =
     (if total_purchases (stats s) \<ge> max_purchases (config s) then (Inr False, s, [])
      else
        (let (now, w) = datetime_now env (world s);
             s1 = s\<lparr>world := w\<rparr>;
             s2 = (if ((now - hour_start s1) div 1000000) mod 86400 \<ge> 3600
                   then s1\<lparr>hour_start := now, hourly_searches := 0\<rparr>
                   else s1)
         in
         if hourly_searches s2 \<ge> max_searches_per_hour (config s2) then (Inr False, s2, [])
         else
           (case get_tradepile env s2 of
              (Inl e, s3) \<Rightarrow> (Inl e, s3, [GetTradepile])
            | (Inr tradepile, s3) \<Rightarrow>
                if int tradepile \<ge> max_active_sales (config s3)
                then (Inr False, s3, [GetTradepile])
                else (Inr True, s3, [GetTradepile]))))"

text \<open>
  How an iteration of \<open>while not self._stop_event.is_set()\<close> ends: \<open>continue\<close> or the end
  of the body, \<open>break\<close>, or an exception that leaves the loop (one raised by the error
  callback inside a handler).
\<close>

datatype loop_ctl = Continue | Break | Raised exn

text \<open>The \<open>except\<close> clauses of the loop (sniper.py 231-251), in their order.\<close>

definition fatal_halt :: "exn \<Rightarrow> 'w Sniper \<Rightarrow> loop_ctl \<times> 'w Sniper \<times> event list" where
  "fatal_halt e s =
     (let s1 = s\<lparr>state := ERROR\<rparr> in
      case on_error s1 of
        None \<Rightarrow> (Break, s1, [])
      | Some callback \<Rightarrow>
          (case callback e of
             None \<Rightarrow> (Break, s1, [OnError e])
           | Some e' \<Rightarrow> (Raised e', s1, [OnError e])))"

definition search_loop_except :: "exn \<Rightarrow> 'w Sniper \<Rightarrow> loop_ctl \<times> 'w Sniper \<times> event list" where
  "search_loop_except e s =
     (if e = CaptchaError then fatal_halt CaptchaError s
      else if e = TransferBanError then fatal_halt TransferBanError s
      else if e = RateLimitError then (Continue, s, [Sleep 60])
      else (Continue, s, [Sleep 5]))"

text \<open>The body of the loop (sniper.py 198-251), entered with the stop event not set.\<close>

definition search_loop_iteration ::
  "'w environment \<Rightarrow> int \<Rightarrow> 'w Sniper \<Rightarrow> loop_ctl \<times> int \<times> 'w Sniper \<times> event list" where
  "search_loop_iteration env cp s =
     (if state s \<noteq> RUNNING then (Continue, cp, s, [Sleep 1])
      else
        (case check_limits env s of
           (Inl e, s1, evs) \<Rightarrow>
             (case search_loop_except e s1 of
                (ctl, s2, evs2) \<Rightarrow> (ctl, cp, s2, evs @ evs2))
         | (Inr allowed, s1, evs) \<Rightarrow>
             if \<not> allowed then (Continue, cp, s1, evs @ [Sleep 5])
             else
               (case search_targets env (targets s1) cp s1 of
                  (Inr u, ts, cp1, s2, evs2) \<Rightarrow>
                    (Continue, cp1, s2\<lparr>targets := ts\<rparr>, evs @ evs2)
                | (Inl e, ts, cp1, s2, evs2) \<Rightarrow>
                    (case search_loop_except e (s2\<lparr>targets := ts\<rparr>) of
                       (ctl, s3, evs3) \<Rightarrow> (ctl, cp1, s3, evs @ evs2 @ evs3)))))"


section \<open>What the theorems observe\<close>

text \<open>The parts of the outcome of a cycle.\<close>

definition result_of :: "'r \<times> 't \<times> 's \<times> 'e \<Rightarrow> 'r" where
  "result_of x = fst x"

definition target_of :: "'r \<times> 't \<times> 's \<times> 'e \<Rightarrow> 't" where
  "target_of x = fst (snd x)"

definition state_of :: "'r \<times> 't \<times> 's \<times> 'e \<Rightarrow> 's" where
  "state_of x = fst (snd (snd x))"

definition events_of :: "'r \<times> 't \<times> 's \<times> 'e \<Rightarrow> 'e" where
  "events_of x = snd (snd (snd x))"



text \<open>The listings that the search of a cycle returns (none when the search raises).\<close>

definition listings_returned :: "'w environment \<Rightarrow> SnipeTarget \<Rightarrow> 'w Sniper \<Rightarrow> Player list" where
  "listings_returned env target s =
     (case fst (search env (filter_t target) s) of Inr players \<Rightarrow> players | Inl e \<Rightarrow> [])"

text \<open>
  Every buy call of a list of events directly follows a balance check whose answer was a
  balance of at least the price plus the reserve. \<open>prev\<close> is the answer of the balance
  check when the event before was one.
\<close>

fun balance_checked :: "int \<Rightarrow> (exn + int) option \<Rightarrow> event list \<Rightarrow> bool" where
  "balance_checked reserve prev [] = True"
| "balance_checked reserve prev (BuyNow tid price ok # evs) =
     ((case prev of Some (Inr balance) \<Rightarrow> price + reserve \<le> balance | _ \<Rightarrow> False)
      \<and> balance_checked reserve None evs)"
| "balance_checked reserve prev (GetCredits answer # evs) =
     balance_checked reserve (Some answer) evs"
| "balance_checked reserve prev (e # evs) = balance_checked reserve None evs"

fun is_balance_check :: "event \<Rightarrow> bool" where
  "is_balance_check (GetCredits answer) = True"
| "is_balance_check e = False"

fun is_failed_buy :: "event \<Rightarrow> bool" where
  "is_failed_buy (BuyNow tid price ok) = (\<not> ok)"
| "is_failed_buy e = False"

text \<open>
  A remote service on which every request but a bid succeeds, and callbacks that return:
  the runs in which nothing but \<open>buy_now\<close> can meet a provider condition.
\<close>

definition only_bids_fail :: "'w environment \<Rightarrow> 'w Sniper \<Rightarrow> bool" where
  "only_bids_fail env s =
     ((\<forall>w. \<exists>credits. fst (GET_user_credits env w) = Response 200 (Some credits))
      \<and> (\<forall>f w. \<exists>players. fst (GET_transfermarket env f w) = Response 200 (Some players))
      \<and> (\<forall>w. \<exists>n. fst (GET_tradepile env w) = Response 200 (Some n))
      \<and> (\<forall>w. \<exists>items. fst (GET_purchased_items env w) = Response 200 (Some items)
                \<and> list_all (\<lambda>item. item_id item \<noteq> None) items)
      \<and> (case on_purchase s of None \<Rightarrow> True | Some callback \<Rightarrow> \<forall>p price. callback p price = None))"


section \<open>A small market for the examples\<close>

text \<open>A listing as \<open>search\<close> builds it from an entry with a trade id and a buy-now price only.\<close>

definition listing :: "int \<Rightarrow> int \<Rightarrow> Player" where
  "listing tid price =
     \<lparr>trade_id = tid, asset_id = 0, resource_id = tid, name = ''Unknown'', rating = 0,
      position = [], buy_now_price = price, current_bid = 0, expires = 0,
      seller_established = False\<rparr>"

text \<open>
  A remote service without state: the balance is \<open>credits\<close>, every search returns listings
  at 900, 1,200, 0 (auction only) and 950, a bid on trade \<open>tid\<close> is answered by \<open>bid tid\<close>,
  the unassigned pile is answered by \<open>pile\<close>, the rest succeeds.
\<close>

definition example_market :: "int \<Rightarrow> (int \<Rightarrow> bool http) \<Rightarrow> Item list http \<Rightarrow> unit environment" where
  "example_market credits bid pile =
     \<lparr>GET_user_credits = (\<lambda>w. (Response 200 (Some credits), w)),
      GET_transfermarket =
        (\<lambda>f w. (Response 200 (Some [listing 1 900, listing 2 1200, listing 3 0, listing 4 950]), w)),
      PUT_trade_bid = (\<lambda>tid price w. (bid tid, w)),
      GET_purchased_items = (\<lambda>w. (pile, w)),
      PUT_item = (\<lambda>iid w. (Response 200 (Some True), w)),
      POST_auctionhouse = (\<lambda>iid start_price bin_price duration w. (Response 200 (Some (Some 77)), w)),
      GET_tradepile = (\<lambda>w. (Response 200 (Some 0), w)),
      datetime_now = (\<lambda>w. (0, w))\<rparr>"

definition example_target :: SnipeTarget where
  "example_target = SnipeTarget_init ''T'' SearchFilter_init 1000 1"

text \<open>A running engine with the default configuration, that target and no callbacks.\<close>

definition example_engine :: "unit Sniper" where
  "example_engine =
     (Sniper_init SniperConfig_init None None 0 ())
       \<lparr>state := RUNNING, targets := [example_target], search_task := True\<rparr>"


section \<open>Theorems\<close>

subsection \<open>Price rounding\<close>

lemma round_price_step: "round_price p = (p div price_step p) * price_step p"
  by (simp add: round_price_def price_step_def)

lemma price_step_pos: "0 < price_step p"
  by (simp add: price_step_def)

lemma floor_multiple_ge:
  fixes k b p :: int
  assumes "0 < k" "k dvd b" "b \<le> p"
  shows "b \<le> (p div k) * k"
proof -
  have "b div k \<le> p div k" using assms by (simp add: zdiv_mono1)
  then have "(b div k) * k \<le> (p div k) * k" using assms(1) by (simp add: mult_right_mono)
  moreover have "(b div k) * k = b" using assms(2) by simp
  ultimately show ?thesis by simp
qed

lemma floor_multiple_le:
  fixes k p :: int
  assumes "0 < k"
  shows "(p div k) * k \<le> p"
proof -
  have "(p div k) * k = p - p mod k" by (simp add: minus_mod_eq_div_mult)
  moreover have "0 \<le> p mod k" using assms by simp
  ultimately show ?thesis by linarith
qed

text \<open>The rounded price is the greatest multiple of the tier's step that is at most the price.\<close>

lemma round_price_floor:
  "price_step p dvd round_price p \<and> round_price p \<le> p \<and> p < round_price p + price_step p"
proof -
  have pos: "0 < price_step p" by (rule price_step_pos)
  have d: "price_step p dvd round_price p" by (simp add: round_price_step)
  have "round_price p = p - p mod price_step p"
    by (simp add: round_price_step minus_mod_eq_div_mult)
  moreover have "0 \<le> p mod price_step p" "p mod price_step p < price_step p"
    using pos by simp_all
  ultimately show ?thesis using d by linarith
qed

text \<open>Rounding never leaves the tier of the price: every tier starts at a multiple of its step.\<close>

lemma price_step_round_price: "price_step (round_price p) = price_step p"
proof -
  have le: "round_price p \<le> p"
    using floor_multiple_le [of "price_step p" p] price_step_pos [of p]
    by (simp add: round_price_step)
  consider "p < 1000" | "1000 \<le> p" "p < 10000" | "10000 \<le> p" "p < 50000"
    | "50000 \<le> p" "p < 100000" | "100000 \<le> p" by linarith
  then show ?thesis
  proof cases
    case 1
    then show ?thesis using le by (simp add: price_step_def)
  next
    case 2
    have "1000 \<le> (p div 100) * 100"
      by (rule floor_multiple_ge) (use 2 in simp_all)
    then have "1000 \<le> round_price p" using 2 by (simp add: round_price_def)
    then show ?thesis using le 2 by (simp add: price_step_def)
  next
    case 3
    have "10000 \<le> (p div 250) * 250"
      by (rule floor_multiple_ge) (use 3 in simp_all)
    then have "10000 \<le> round_price p" using 3 by (simp add: round_price_def)
    then show ?thesis using le 3 by (simp add: price_step_def)
  next
    case 4
    have "50000 \<le> (p div 500) * 500"
      by (rule floor_multiple_ge) (use 4 in simp_all)
    then have "50000 \<le> round_price p" using 4 by (simp add: round_price_def)
    then show ?thesis using le 4 by (simp add: price_step_def)
  next
    case 5
    have "100000 \<le> (p div 1000) * 1000"
      by (rule floor_multiple_ge) (use 5 in simp_all)
    then have "100000 \<le> round_price p" using 5 by (simp add: round_price_def)
    then show ?thesis using 5 by (simp add: price_step_def)
  qed
qed

text \<open>
  Claim C3, as amended. For every integer price (the non-negative ones in particular),
  \<open>round_price\<close> rounds down to the step of the price's tier: the result is a multiple of
  the step, is at most the price, and the price is less than one step above it. The table
  of steps is \<open>price_step\<close>: 50 below 1,000; 100 below 10,000; 250 below 50,000; 500 below
  100,000; 1,000 from 100,000 on, each boundary in the tier with the larger step (1,050
  rounds to 1,000, not to 1,050, and so on). 1,234 rounds to 1,200, and 60,400 rounds to
  60,000.
\<close>

theorem round_price_step_table:
  "price_step p dvd round_price p \<and> round_price p \<le> p \<and> p < round_price p + price_step p
   \<and> price_step 999 = 50 \<and> price_step 1000 = 100 \<and> price_step 9999 = 100
   \<and> price_step 10000 = 250 \<and> price_step 49999 = 250 \<and> price_step 50000 = 500
   \<and> price_step 99999 = 500 \<and> price_step 100000 = 1000
   \<and> round_price 999 = 950 \<and> round_price 1000 = 1000 \<and> round_price 1050 = 1000
   \<and> round_price 9999 = 9900 \<and> round_price 10000 = 10000 \<and> round_price 10200 = 10000
   \<and> round_price 49999 = 49750 \<and> round_price 50000 = 50000 \<and> round_price 50250 = 50000
   \<and> round_price 99999 = 99500 \<and> round_price 100000 = 100000
   \<and> round_price 100500 = 100000
   \<and> round_price 1234 = 1200 \<and> round_price 60400 = 60000"
proof -
  have tiers:
    "price_step 999 = 50 \<and> price_step 1000 = 100 \<and> price_step 9999 = 100
     \<and> price_step 10000 = 250 \<and> price_step 49999 = 250 \<and> price_step 50000 = 500
     \<and> price_step 99999 = 500 \<and> price_step 100000 = 1000"
    by (simp add: price_step_def)
  have examples:
    "round_price 999 = 950 \<and> round_price 1000 = 1000 \<and> round_price 1050 = 1000
     \<and> round_price 9999 = 9900 \<and> round_price 10000 = 10000 \<and> round_price 10200 = 10000
     \<and> round_price 49999 = 49750 \<and> round_price 50000 = 50000 \<and> round_price 50250 = 50000
     \<and> round_price 99999 = 99500 \<and> round_price 100000 = 100000
     \<and> round_price 100500 = 100000
     \<and> round_price 1234 = 1200 \<and> round_price 60400 = 60000"
    by (simp add: round_price_def)
  from round_price_floor [of p] tiers examples show ?thesis by blast
qed

text \<open>
  Claim C3 as stated fails in its second example: 60,400 lies in the 500-step tier and
  rounding goes down, so the result is 60,000 and not 60,500.
\<close>

theorem round_price_60400_counterexample:
  "round_price 60400 = 60000 \<and> round_price 60400 \<noteq> 60500"
  by (simp add: round_price_def)

text \<open>
  Claim C8. Price rounding is idempotent: for every integer price \<open>p\<close> (the non-negative
  ones in particular), rounding the already rounded price gives the same value.
\<close>

theorem round_price_idempotent: "round_price (round_price p) = round_price p"
proof -
  have "round_price (round_price p) = (round_price p div price_step p) * price_step p"
    by (simp add: round_price_step [of "round_price p"] price_step_round_price)
  also have "\<dots> = round_price p"
    by (simp add: round_price_step [of p])
  finally show ?thesis .
qed


subsection \<open>Statistics\<close>




subsection \<open>The target registry\<close>

lemma sort_key_snoc_sorted:
  fixes f :: "'a \<Rightarrow> int"
  shows "sort_key f (sort_key f xs @ [x]) = sort_key f (xs @ [x])"
proof (rule properties_for_sort_key)
  show "mset (sort_key f (xs @ [x])) = mset (sort_key f xs @ [x])" by simp
  show "sorted (map f (sort_key f (xs @ [x])))" by simp
  fix k
  have "filter (\<lambda>y. f y = f k) (sort_key f (xs @ [x])) = filter (\<lambda>y. f y = f k) (xs @ [x])"
    by (rule sort_key_stable)
  also have "\<dots> = filter (\<lambda>y. f y = f k) (sort_key f xs) @ filter (\<lambda>y. f y = f k) [x]"
    by (simp only: filter_append sort_key_stable)
  finally show "filter (\<lambda>y. f k = f y) (sort_key f (xs @ [x]))
      = filter (\<lambda>y. f k = f y) (sort_key f xs @ [x])"
    by (simp add: eq_commute [of "f k"])
qed

lemma registry_step_sorted:
  "registry_step (sort_key (\<lambda>t. - priority t) rs) op =
     sort_key (\<lambda>t. - priority t) (insertion_step rs op)"
proof (cases op)
  case (Add t)
  then show ?thesis by (simp add: add_target_def sort_key_snoc_sorted)
next
  case (Remove n)
  then show ?thesis by (simp add: remove_target_def filter_sort)
qed

text \<open>The registry is the stable sort of the surviving targets in their order of insertion.\<close>

lemma registry_after_sorted:
  "registry_after ops = sort_key (\<lambda>t. - priority t) (insertion_order ops)"
proof (induction ops rule: rev_induct)
  case Nil
  show ?case by (simp add: registry_after_def insertion_order_def)
next
  case (snoc op ops)
  then show ?case
    using registry_step_sorted [of "insertion_order ops" op]
    by (simp add: registry_after_def insertion_order_def)
qed

lemma registry_after_descending:
  "sorted_wrt (\<lambda>a b. priority b \<le> priority a) (registry_after ops)"
proof -
  have "sorted (map (\<lambda>t. - priority t) (registry_after ops))"
    by (simp add: registry_after_sorted)
  then show ?thesis by (simp add: sorted_map)
qed

lemma registry_after_stable:
  "filter (\<lambda>t. priority t = k) (registry_after ops)
     = filter (\<lambda>t. priority t = k) (insertion_order ops)"
proof -
  have "filter (\<lambda>t. - priority t = - k) (registry_after ops)
      = filter (\<lambda>t. - priority t = - k) (insertion_order ops)"
    unfolding registry_after_sorted by (rule sort_key_stable)
  then show ?thesis by simp
qed

text \<open>
  Claim C7. After any sequence of \<open>add_target\<close> and \<open>remove_target\<close> calls on a fresh
  engine, the target list is in descending order of priority, and for every priority \<open>k\<close>
  the targets of priority \<open>k\<close> stand in the list in the order in which they were added.
  Adding A (priority 1), B (5) and C (5) in that order gives the list B, C, A.
\<close>

theorem registry_priority_order:
  "sorted_wrt (\<lambda>a b. priority b \<le> priority a) (registry_after ops)
   \<and> filter (\<lambda>t. priority t = k) (registry_after ops)
       = filter (\<lambda>t. priority t = k) (insertion_order ops)
   \<and> map SnipeTarget.name (registry_after
        [Add (SnipeTarget_init ''A'' SearchFilter_init 1000 1),
         Add (SnipeTarget_init ''B'' SearchFilter_init 1000 5),
         Add (SnipeTarget_init ''C'' SearchFilter_init 1000 5)]) = [''B'', ''C'', ''A'']"
proof -
  have "map SnipeTarget.name (registry_after
        [Add (SnipeTarget_init ''A'' SearchFilter_init 1000 1),
         Add (SnipeTarget_init ''B'' SearchFilter_init 1000 5),
         Add (SnipeTarget_init ''C'' SearchFilter_init 1000 5)]) = [''B'', ''C'', ''A'']"
    by (simp add: registry_after_def add_target_def SnipeTarget_init_def)
  with registry_after_descending [of ops] registry_after_stable [of k ops]
  show ?thesis by blast
qed


subsection \<open>The search-and-buy cycle\<close>

text \<open>What each operation leaves unchanged.\<close>

lemma get_credits_fields:
  "get_credits env s = (r, s') \<Longrightarrow>
     config s' = config s \<and> state s' = state s \<and> stats s' = stats s
     \<and> on_purchase s' = on_purchase s \<and> stop_event s' = stop_event s"
  by (auto simp: get_credits_def split: prod.splits sum.splits)

lemma buy_now_fields:
  "buy_now env tid pr s = (r, s') \<Longrightarrow>
     config s' = config s \<and> state s' = state s \<and> stats s' = stats s
     \<and> on_purchase s' = on_purchase s \<and> stop_event s' = stop_event s"
  by (auto simp: buy_now_def split: prod.splits sum.splits if_splits)

lemma get_unassigned_fields:
  "get_unassigned env s = (r, s') \<Longrightarrow>
     config s' = config s \<and> state s' = state s \<and> stats s' = stats s
     \<and> on_purchase s' = on_purchase s \<and> stop_event s' = stop_event s"
  by (auto simp: get_unassigned_def split: prod.splits)

lemma send_to_tradepile_fields:
  "send_to_tradepile env iid s = (r, s') \<Longrightarrow>
     config s' = config s \<and> state s' = state s \<and> stats s' = stats s
     \<and> on_purchase s' = on_purchase s \<and> stop_event s' = stop_event s"
  by (auto simp: send_to_tradepile_def split: prod.splits sum.splits)

lemma list_item_fields:
  "list_item env iid a b d s = (r, s') \<Longrightarrow>
     config s' = config s \<and> state s' = state s \<and> stats s' = stats s
     \<and> on_purchase s' = on_purchase s \<and> stop_event s' = stop_event s"
  by (auto simp: list_item_def split: prod.splits sum.splits)

lemma search_fields:
  "search env f s = (r, s') \<Longrightarrow>
     config s' = config s \<and> state s' = state s \<and> stats s' = stats s
     \<and> on_purchase s' = on_purchase s \<and> stop_event s' = stop_event s"
  by (auto simp: search_def split: prod.splits)

lemma auto_sell_player_fields:
  assumes "auto_sell_player env p t s = (r, s', evs)"
  shows "config s' = config s \<and> state s' = state s \<and> stats s' = stats s
     \<and> on_purchase s' = on_purchase s \<and> stop_event s' = stop_event s"
  using assms
  unfolding auto_sell_player_def Let_def
  by (auto split: prod.splits sum.splits option.splits if_splits
      dest!: get_unassigned_fields send_to_tradepile_fields list_item_fields)

lemma auto_sell_player_events:
  assumes "auto_sell_player env p t s = (r, s', evs)"
  shows "(\<forall>e\<in>set evs. \<not> is_buy e \<and> \<not> is_balance_check e) \<and> GetUnassigned \<in> set evs"
  using assms
  unfolding auto_sell_player_def Let_def
  by (auto split: prod.splits sum.splits option.splits if_splits)

lemma purchase_succeeded_events:
  assumes "purchase_succeeded env t p s = (r, t', s', evs)"
  shows "\<forall>e\<in>set evs. \<not> is_buy e \<and> \<not> is_balance_check e"
  using assms
  unfolding purchase_succeeded_def Let_def
  by (auto split: prod.splits sum.splits option.splits if_splits dest!: auto_sell_player_events)

lemma purchase_succeeded_no_buy:
  assumes "purchase_succeeded env t p s = (r, t', s', evs)"
  shows "BuyNow tid pr ok \<notin> set evs"
  using purchase_succeeded_events [OF assms] by force

lemma purchase_succeeded_fields:
  assumes "purchase_succeeded env t p s = (r, t', s', evs)"
  shows "config s' = config s \<and> state s' = state s \<and> on_purchase s' = on_purchase s
    \<and> stop_event s' = stop_event s
    \<and> stats s' = (stats s)\<lparr>total_purchases := total_purchases (stats s) + 1,
                            total_spent := total_spent (stats s) + buy_now_price p\<rparr>
    \<and> t' = t\<lparr>bought := bought t + 1\<rparr> \<and> r \<noteq> Inr False"
  using assms
  unfolding purchase_succeeded_def Let_def
  by (auto split: prod.splits sum.splits option.splits if_splits dest!: auto_sell_player_fields)

lemma no_buy_balance_checked:
  "\<forall>e\<in>set evs. \<not> is_buy e \<Longrightarrow> balance_checked reserve prev evs"
  by (induction reserve prev evs rule: balance_checked.induct) simp_all

lemma search_and_buy_cases:
  assumes "search_and_buy env t s = (r, t', s', evs)"
  obtains (raised) e where "r = Inl e" "evs = [Search (filter_t t)]"
      "fst (search env (filter_t t) s) = Inl e"
      "listings_returned env t s = []"
      "config s' = config s" "state s' = state s" "stop_event s' = stop_event s"
      "stats s' = (stats s)\<lparr>total_searches := total_searches (stats s) + 1\<rparr>"
      "bought t' = bought t" "on_purchase s' = on_purchase s"
  | (nothing) "r = Inr False" "evs = [Search (filter_t t)]"
      "listings_returned env t s = []"
      "config s' = config s" "state s' = state s" "stop_event s' = stop_event s"
      "stats s' = (stats s)\<lparr>total_searches := total_searches (stats s) + 1\<rparr>"
      "bought t' = bought t" "on_purchase s' = on_purchase s"
  | (candidates) t2 s2 evs2 where
      "buy_candidates env t2 (snipeable t (listings_returned env t s)) s2 = (r, t', s', evs2)"
      "evs = Search (filter_t t) # evs2"
      "config s2 = config s" "state s2 = state s" "on_purchase s2 = on_purchase s"
      "stop_event s2 = stop_event s"
      "stats s2 = (stats s)\<lparr>total_searches := total_searches (stats s) + 1\<rparr>"
      "bought t2 = bought t"
proof -
  define t1 where "t1 = t\<lparr>searches := searches t + 1\<rparr>"
  define s1 where "s1 = s\<lparr>stats := (stats s)\<lparr>total_searches := total_searches (stats s) + 1\<rparr>,
                 hourly_searches := hourly_searches s + 1\<rparr>"
  define t2 where "t2 = (\<lambda>players. if snipeable t players \<noteq> []
                    then t1\<lparr>found := found t1 + int (length (snipeable t players))\<rparr>
                    else t1)"
  have unfolded: "search_and_buy env t s =
     (case search env (filter_t t) s1 of
        (Inl e, s2) \<Rightarrow> (Inl e, t1, s2, [Search (filter_t t)])
      | (Inr players, s2) \<Rightarrow>
          if players = [] then (Inr False, t1, s2, [Search (filter_t t)])
          else (case buy_candidates env (t2 players) (snipeable t players) s2 of
               (r, t3, s3, evs) \<Rightarrow> (r, t3, s3, Search (filter_t t) # evs)))"
    by (simp add: search_and_buy_def Let_def t1_def s1_def t2_def snipeable_def
        split: prod.splits sum.splits)
  obtain sr s2 where sr: "search env (filter_t t) s1 = (sr, s2)"
    by (cases "search env (filter_t t) s1")
  have same: "fst (search env (filter_t t) s) = sr"
    using sr by (simp add: s1_def search_def split: prod.splits)
  have fields: "config s2 = config s" "state s2 = state s" "on_purchase s2 = on_purchase s"
      "stop_event s2 = stop_event s"
      "stats s2 = (stats s)\<lparr>total_searches := total_searches (stats s) + 1\<rparr>"
    using search_fields [OF sr] by (simp_all add: s1_def)
  have b1: "bought t1 = bought t" by (simp add: t1_def)
  show thesis
  proof (cases sr)
    case (Inl e)
    with assms sr have a: "r = Inl e" "evs = [Search (filter_t t)]" "s' = s2" "t' = t1"
      by (simp_all add: unfolded)
    have b: "listings_returned env t s = []"
      using same Inl by (simp add: listings_returned_def)
    show thesis by (rule raised [of e]) (use a b same Inl fields b1 in simp_all)
  next
    case (Inr players)
    have lr: "listings_returned env t s = players"
      using same Inr by (simp add: listings_returned_def)
    show thesis
    proof (cases "players = []")
      case True
      with assms sr Inr have a: "r = Inr False" "evs = [Search (filter_t t)]" "s' = s2" "t' = t1"
        by (simp_all add: unfolded)
      show thesis by (rule nothing) (use a fields lr True b1 in simp_all)
    next
      case False
      obtain r3 t3 s3 evs3 where
        bc: "buy_candidates env (t2 players) (snipeable t players) s2 = (r3, t3, s3, evs3)"
        by (cases "buy_candidates env (t2 players) (snipeable t players) s2") auto
      from assms(1) sr Inr False bc
      have eq: "r = r3" "t' = t3" "s' = s3" "evs = Search (filter_t t) # evs3"
        by (simp_all add: unfolded)
      have b2: "bought (t2 players) = bought t" by (simp add: t2_def t1_def)
      show thesis
        by (rule candidates [of "t2 players" s2 evs3]) (use b2 bc eq fields lr in simp_all)
    qed
  qed
qed

lemma is_failed_buy_is_buy: "is_failed_buy e \<Longrightarrow> is_buy e"
  by (cases e) simp_all

lemma is_purchase_is_buy: "is_purchase e \<Longrightarrow> is_buy e"
  by (cases e) simp_all

lemma buy_candidates_Cons_cases:
  assumes "buy_candidates env t (p # ps) s = (r, t', s', evs)"
  obtains (credits_raised) e s1 where
      "get_credits env s = (Inl e, s1)" "r = Inl e" "t' = t" "s' = s1"
      "evs = [GetCredits (Inl e)]"
  | (insufficient) b s1 where
      "get_credits env s = (Inr b, s1)"
      "b < buy_now_price p + min_coins_reserve (config s)"
      "r = Inr False" "t' = t" "s' = s1" "evs = [GetCredits (Inr b)]"
  | (bought) b s1 s2 evs2 where
      "get_credits env s = (Inr b, s1)"
      "\<not> b < buy_now_price p + min_coins_reserve (config s)"
      "buy_now env (trade_id p) (buy_now_price p) s1 = (True, s2)"
      "purchase_succeeded env t p s2 = (r, t', s', evs2)"
      "evs = GetCredits (Inr b) # BuyNow (trade_id p) (buy_now_price p) True # evs2"
  | (failed) b s1 s2 evs2 where
      "get_credits env s = (Inr b, s1)"
      "\<not> b < buy_now_price p + min_coins_reserve (config s)"
      "buy_now env (trade_id p) (buy_now_price p) s1 = (False, s2)"
      "buy_candidates env t ps
         (s2\<lparr>stats := (stats s2)\<lparr>failed_purchases := failed_purchases (stats s2) + 1\<rparr>\<rparr>)
         = (r, t', s', evs2)"
      "evs = GetCredits (Inr b) # BuyNow (trade_id p) (buy_now_price p) False
               # Sleep (buy_delay (config s)) # evs2"
proof -
  obtain cr s1 where gc: "get_credits env s = (cr, s1)" by (cases "get_credits env s")
  have c1: "config s1 = config s" using get_credits_fields [OF gc] by simp
  show thesis
  proof (cases cr)
    case (Inl e)
    show thesis by (rule credits_raised [of e s1]) (use assms gc Inl in simp_all)
  next
    case (Inr b)
    show thesis
    proof (cases "b < buy_now_price p + min_coins_reserve (config s)")
      case True
      show thesis by (rule insufficient [of b s1]) (use assms gc Inr True c1 in simp_all)
    next
      case False
      obtain ok s2 where bn: "buy_now env (trade_id p) (buy_now_price p) s1 = (ok, s2)"
        by (cases "buy_now env (trade_id p) (buy_now_price p) s1")
      have c2: "config s2 = config s" using buy_now_fields [OF bn] c1 by simp
      show thesis
      proof (cases ok)
        case True
        obtain r3 t3 s3 evs3 where ps3: "purchase_succeeded env t p s2 = (r3, t3, s3, evs3)"
          by (cases "purchase_succeeded env t p s2") auto
        show thesis
          by (rule bought [of b s1 s2 evs3]) (use assms gc Inr False c1 bn True ps3 in simp_all)
      next
        case no: False
        define s2' where
          "s2' = s2\<lparr>stats := (stats s2)\<lparr>failed_purchases := failed_purchases (stats s2) + 1\<rparr>\<rparr>"
        obtain r3 t3 s3 evs3 where bc3: "buy_candidates env t ps s2' = (r3, t3, s3, evs3)"
          by (cases "buy_candidates env t ps s2'") auto
        show thesis
          by (rule failed [of b s1 s2 evs3])
            (use assms gc Inr False c1 c2 bn no bc3 in \<open>simp_all add: s2'_def\<close>)
      qed
    qed
  qed
qed

lemma buy_candidates_fields:
  "buy_candidates env t ps s = (r, t', s', evs) \<Longrightarrow>
     config s' = config s \<and> state s' = state s \<and> stop_event s' = stop_event s
     \<and> on_purchase s' = on_purchase s"
proof (induction ps arbitrary: s r t' s' evs)
  case Nil
  then show ?case by simp
next
  case (Cons p ps)
  from Cons.prems show ?case
  proof (cases rule: buy_candidates_Cons_cases)
    case (credits_raised e s1)
    then show ?thesis using get_credits_fields by blast
  next
    case (insufficient b s1)
    then show ?thesis using get_credits_fields by blast
  next
    case (bought b s1 s2 evs2)
    from get_credits_fields [OF bought(1)] buy_now_fields [OF bought(3)]
      purchase_succeeded_fields [OF bought(4)]
    show ?thesis by simp
  next
    case (failed b s1 s2 evs2)
    from get_credits_fields [OF failed(1)] buy_now_fields [OF failed(3)] Cons.IH [OF failed(4)]
    show ?thesis by simp
  qed
qed

lemma buy_candidates_buys:
  "buy_candidates env t ps s = (r, t', s', evs) \<Longrightarrow> BuyNow tid pr ok \<in> set evs
     \<Longrightarrow> \<exists>p\<in>set ps. trade_id p = tid \<and> buy_now_price p = pr"
proof (induction ps arbitrary: s r t' s' evs)
  case Nil
  then show ?case by simp
next
  case (Cons p ps)
  from Cons.prems(1) show ?case
  proof (cases rule: buy_candidates_Cons_cases)
    case (credits_raised e s1)
    then show ?thesis using Cons.prems(2) by simp
  next
    case (insufficient b s1)
    then show ?thesis using Cons.prems(2) by simp
  next
    case (bought b s1 s2 evs2)
    then show ?thesis using Cons.prems(2) purchase_succeeded_no_buy [OF bought(4)] by auto
  next
    case (failed b s1 s2 evs2)
    then show ?thesis using Cons.prems(2) Cons.IH [OF failed(4)] by auto
  qed
qed

lemma buy_candidates_balance_checked:
  "buy_candidates env t ps s = (r, t', s', evs) \<Longrightarrow>
     balance_checked (min_coins_reserve (config s)) None evs"
proof (induction ps arbitrary: s r t' s' evs)
  case Nil
  then show ?case by simp
next
  case (Cons p ps)
  from Cons.prems(1) show ?case
  proof (cases rule: buy_candidates_Cons_cases)
    case (credits_raised e s1)
    then show ?thesis by simp
  next
    case (insufficient b s1)
    then show ?thesis by simp
  next
    case (bought b s1 s2 evs2)
    have "balance_checked (min_coins_reserve (config s)) None evs2"
      using purchase_succeeded_events [OF bought(4)] by (intro no_buy_balance_checked) simp
    then show ?thesis using bought by simp
  next
    case (failed b s1 s2 evs2)
    have "config (s2\<lparr>stats := (stats s2)\<lparr>failed_purchases := failed_purchases (stats s2) + 1\<rparr>\<rparr>)
        = config s"
      using get_credits_fields [OF failed(1)] buy_now_fields [OF failed(3)] by simp
    with Cons.IH [OF failed(4)] have "balance_checked (min_coins_reserve (config s)) None evs2"
      by simp
    then show ?thesis using failed by simp
  qed
qed

lemma buy_candidates_failed_counted:
  "buy_candidates env t ps s = (r, t', s', evs) \<Longrightarrow>
     failed_purchases (stats s') = failed_purchases (stats s) + int (length (filter is_failed_buy evs))"
proof (induction ps arbitrary: s r t' s' evs)
  case Nil
  then show ?case by simp
next
  case (Cons p ps)
  from Cons.prems(1) show ?case
  proof (cases rule: buy_candidates_Cons_cases)
    case (credits_raised e s1)
    then show ?thesis using get_credits_fields [OF credits_raised(1)] by simp
  next
    case (insufficient b s1)
    then show ?thesis using get_credits_fields [OF insufficient(1)] by simp
  next
    case (bought b s1 s2 evs2)
    have "filter is_failed_buy evs2 = []"
      using purchase_succeeded_events [OF bought(4)]
      by (auto simp: filter_empty_conv dest: is_failed_buy_is_buy)
    then show ?thesis
      using bought get_credits_fields [OF bought(1)] buy_now_fields [OF bought(3)]
        purchase_succeeded_fields [OF bought(4)] by simp
  next
    case (failed b s1 s2 evs2)
    from Cons.IH [OF failed(4)] show ?thesis
      using failed get_credits_fields [OF failed(1)] buy_now_fields [OF failed(3)] by simp
  qed
qed

lemmas example_defs =
  example_market_def example_target_def example_engine_def listing_def
  Sniper_init_def SniperConfig_init_def SniperStats_init_def SnipeTarget_init_def
  SearchFilter_init_def

lemmas cycle_defs =
  search_and_buy_def search_def request_def snipeable_def get_credits_def buy_now_def
  purchase_succeeded_def auto_sell_player_def get_unassigned_def send_to_tradepile_def
  list_item_def Let_def result_of_def target_of_def state_of_def events_of_def

lemma snipeable_price:
  "p \<in> set (snipeable t players) \<Longrightarrow>
     p \<in> set players \<and> 0 < buy_now_price p \<and> buy_now_price p \<le> max_buy_price t"
  by (simp add: snipeable_def)

lemma search_and_buy_tuple:
  "search_and_buy env t s =
     (result_of (search_and_buy env t s), target_of (search_and_buy env t s),
      state_of (search_and_buy env t s), events_of (search_and_buy env t s))"
  by (simp add: result_of_def target_of_def state_of_def events_of_def)

text \<open>
  Claim C1. For every target, every engine state and every behaviour of the market, each
  buy call that one search-and-buy cycle issues is for a listing returned by the search of
  that cycle, at that listing's buy-now price, and this price is strictly greater than 0
  and at most the target's \<open>max_buy_price\<close>. So no purchase above the ceiling is attempted,
  and a listing without a buy-now price (price 0) is never bought.
\<close>

theorem search_and_buy_price_ceiling:
  assumes "BuyNow tid pr ok \<in> set (events_of (search_and_buy env t s))"
  shows "0 < pr \<and> pr \<le> max_buy_price t
     \<and> (\<exists>p\<in>set (listings_returned env t s). trade_id p = tid \<and> buy_now_price p = pr)"
  using search_and_buy_tuple [of env t s]
proof (cases rule: search_and_buy_cases)
  case (raised e)
  with assms show ?thesis by simp
next
  case nothing
  with assms show ?thesis by simp
next
  case (candidates t2 s2 evs2)
  with assms have "BuyNow tid pr ok \<in> set evs2" by simp
  from buy_candidates_buys [OF candidates(1) this]
  obtain p where p: "p \<in> set (snipeable t (listings_returned env t s))"
      "trade_id p = tid" "buy_now_price p = pr"
    by blast
  from snipeable_price [OF p(1)] p(2,3) show ?thesis by auto
qed

text \<open>
  In the example market with a balance of 50,000 and bids that succeed, the cycle buys
  the listing at 900 under the ceiling of 1,000.
\<close>

theorem search_and_buy_price_ceiling_witness:
  "events_of (search_and_buy
       (example_market 50000 (\<lambda>tid. Response 200 (Some True)) (Response 200 (Some [])))
       example_target example_engine)
     = [Search SearchFilter_init, GetCredits (Inr 50000), BuyNow 1 900 True, GetUnassigned]
   \<and> (0::int) < 900 \<and> 900 \<le> max_buy_price example_target
   \<and> (\<exists>p\<in>set (listings_returned
                 (example_market 50000 (\<lambda>tid. Response 200 (Some True)) (Response 200 (Some [])))
                 example_target example_engine).
         trade_id p = 1 \<and> buy_now_price p = 900)"
proof -
  have evs: "events_of (search_and_buy
       (example_market 50000 (\<lambda>tid. Response 200 (Some True)) (Response 200 (Some [])))
       example_target example_engine)
     = [Search SearchFilter_init, GetCredits (Inr 50000), BuyNow 1 900 True, GetUnassigned]"
    by (simp add: cycle_defs example_defs)
  then have "BuyNow 1 900 True \<in> set (events_of (search_and_buy
       (example_market 50000 (\<lambda>tid. Response 200 (Some True)) (Response 200 (Some [])))
       example_target example_engine))"
    by simp
  from search_and_buy_price_ceiling [OF this] evs show ?thesis by simp
qed

lemma buy_candidates_after_check:
  "buy_candidates env t ps s = (r, t', s', evs) \<Longrightarrow> evs = pre @ GetCredits answer # post
     \<Longrightarrow> post = [] \<or> (\<exists>tid pr ok rest. post = BuyNow tid pr ok # rest)"
proof (induction ps arbitrary: s r t' s' evs pre)
  case Nil
  then show ?case by simp
next
  case (Cons p ps)
  from Cons.prems(1) show ?case
  proof (cases rule: buy_candidates_Cons_cases)
    case (credits_raised e s1)
    with Cons.prems(2) show ?thesis by (auto simp: Cons_eq_append_conv)
  next
    case (insufficient b s1)
    with Cons.prems(2) show ?thesis by (auto simp: Cons_eq_append_conv)
  next
    case (bought b s1 s2 evs2)
    have none: "\<forall>e\<in>set evs2. \<not> is_balance_check e"
      using purchase_succeeded_events [OF bought(4)] by simp
    show ?thesis
    proof (cases pre)
      case Nil
      with bought Cons.prems(2) show ?thesis by auto
    next
      case (Cons e pre')
      with bought Cons.prems(2) have "evs2 = tl pre' @ GetCredits answer # post \<and> pre' \<noteq> []"
        by (cases pre') auto
      then have "GetCredits answer \<in> set evs2" by simp
      with none show ?thesis by force
    qed
  next
    case (failed b s1 s2 evs2)
    show ?thesis
    proof (cases pre)
      case Nil
      with failed Cons.prems(2) show ?thesis by auto
    next
      case c1: (Cons e1 pre1)
      show ?thesis
      proof (cases pre1)
        case Nil
        with c1 failed Cons.prems(2) show ?thesis by auto
      next
        case c2: (Cons e2 pre2)
        show ?thesis
        proof (cases pre2)
          case Nil
          with c1 c2 failed Cons.prems(2) show ?thesis by auto
        next
          case c3: (Cons e3 pre3)
          with c1 c2 failed Cons.prems(2) have "evs2 = pre3 @ GetCredits answer # post" by simp
          from Cons.IH [OF failed(4) this] show ?thesis .
        qed
      qed
    qed
  qed
qed

text \<open>
  Claim C2. In one search-and-buy cycle every buy call directly follows a balance check
  (\<open>get_credits\<close>) that returned at least the price plus \<open>min_coins_reserve\<close>; after a
  balance check the cycle either issues the buy call for that candidate or makes no call
  at all any more; and when the balance returned for a candidate is less than its price
  plus the reserve, the loop over the candidates ends there with \<open>False\<close>: no buy call for
  that candidate nor for any later one.
\<close>

theorem reserve_hard_stop:
  "balance_checked (min_coins_reserve (config s)) None (events_of (search_and_buy env t s))
   \<and> (\<forall>pre answer post.
         events_of (search_and_buy env t s) = pre @ GetCredits answer # post
           \<longrightarrow> post = [] \<or> (\<exists>tid pr ok rest. post = BuyNow tid pr ok # rest))
   \<and> (get_credits env s = (Inr b, s1) \<and> b < buy_now_price p + min_coins_reserve (config s)
         \<longrightarrow> buy_candidates env t (p # ps) s = (Inr False, t, s1, [GetCredits (Inr b)]))"
proof -
  have checked:
    "balance_checked (min_coins_reserve (config s)) None (events_of (search_and_buy env t s))"
    using search_and_buy_tuple [of env t s]
  proof (cases rule: search_and_buy_cases)
    case (raised e)
    then show ?thesis by simp
  next
    case nothing
    then show ?thesis by simp
  next
    case (candidates t2 s2 evs2)
    from buy_candidates_balance_checked [OF candidates(1)] candidates show ?thesis by simp
  qed
  have after: "post = [] \<or> (\<exists>tid pr ok rest. post = BuyNow tid pr ok # rest)"
    if split: "events_of (search_and_buy env t s) = pre @ GetCredits answer # post"
    for pre answer post
    using search_and_buy_tuple [of env t s]
  proof (cases rule: search_and_buy_cases)
    case (raised e)
    with split show ?thesis by (auto simp: Cons_eq_append_conv)
  next
    case nothing
    with split show ?thesis by (auto simp: Cons_eq_append_conv)
  next
    case (candidates t2 s2 evs2)
    with split obtain pre' where "evs2 = pre' @ GetCredits answer # post"
      by (cases pre) auto
    from buy_candidates_after_check [OF candidates(1) this] show ?thesis .
  qed
  have stop: "buy_candidates env t (p # ps) s = (Inr False, t, s1, [GetCredits (Inr b)])"
    if "get_credits env s = (Inr b, s1)" "b < buy_now_price p + min_coins_reserve (config s)"
    using that get_credits_fields [OF that(1)] by simp
  from checked after stop show ?thesis by blast
qed

text \<open>
  With a balance of 10,899 the first candidate (900, reserve 10,000) is not affordable:
  the cycle ends after the balance check, and the later candidate at 950 is not tried.
\<close>

theorem reserve_hard_stop_witness:
  "events_of (search_and_buy
       (example_market 10899 (\<lambda>tid. Response 200 (Some True)) (Response 200 (Some [])))
       example_target example_engine)
     = [Search SearchFilter_init, GetCredits (Inr 10899)]
   \<and> balance_checked 10000 None [Search SearchFilter_init, GetCredits (Inr 10899)]
   \<and> fst (buy_candidates
       (example_market 10899 (\<lambda>tid. Response 200 (Some True)) (Response 200 (Some [])))
       example_target [listing 1 900, listing 4 950] example_engine) = Inr False
   \<and> events_of (buy_candidates
       (example_market 10899 (\<lambda>tid. Response 200 (Some True)) (Response 200 (Some [])))
       example_target [listing 1 900, listing 4 950] example_engine) = [GetCredits (Inr 10899)]"
proof -
  let ?M = "example_market 10899 (\<lambda>tid. Response 200 (Some True)) (Response 200 (Some []))"
  have evs: "events_of (search_and_buy ?M example_target example_engine)
     = [Search SearchFilter_init, GetCredits (Inr 10899)]"
    by (simp add: cycle_defs example_defs)
  have reserve: "min_coins_reserve (config example_engine) = 10000"
    by (simp add: example_defs)
  have credits: "get_credits ?M example_engine
      = (Inr 10899, snd (get_credits ?M example_engine))"
    by (simp add: get_credits_def request_def example_defs)
  have low: "10899 < buy_now_price (listing 1 900) + min_coins_reserve (config example_engine)"
    by (simp add: example_defs)
  from reserve_hard_stop [of example_engine ?M example_target 10899
      "snd (get_credits ?M example_engine)" "listing 1 900" "[listing 4 950]"]
    evs reserve credits low
  show ?thesis by (simp add: events_of_def)
qed

lemma search_and_buy_fields:
  "config (state_of (search_and_buy env t s)) = config s
   \<and> state (state_of (search_and_buy env t s)) = state s
   \<and> stop_event (state_of (search_and_buy env t s)) = stop_event s
   \<and> on_purchase (state_of (search_and_buy env t s)) = on_purchase s"
  using search_and_buy_tuple [of env t s]
proof (cases rule: search_and_buy_cases)
  case (raised e)
  then show ?thesis by simp
next
  case nothing
  then show ?thesis by simp
next
  case (candidates t2 s2 evs2)
  from buy_candidates_fields [OF candidates(1)] candidates show ?thesis by simp
qed

text \<open>Runs in which only bids fail: no operation of the engine raises.\<close>

lemma only_bids_fail_cong:
  "on_purchase s' = on_purchase s \<Longrightarrow> only_bids_fail env s' = only_bids_fail env s"
  by (simp add: only_bids_fail_def)

lemma get_credits_succeeds:
  assumes "only_bids_fail env s"
  shows "\<exists>b s1. get_credits env s = (Inr b, s1)"
proof -
  from assms obtain b where "fst (GET_user_credits env (world s)) = Response 200 (Some b)"
    unfolding only_bids_fail_def by blast
  then show ?thesis
    by (cases "GET_user_credits env (world s)") (simp add: get_credits_def request_def)
qed

lemma search_succeeds:
  assumes "only_bids_fail env s"
  shows "\<exists>players. fst (search env f s) = Inr players"
proof -
  from assms obtain ps where "fst (GET_transfermarket env f (world s)) = Response 200 (Some ps)"
    unfolding only_bids_fail_def by blast
  then show ?thesis
    by (cases "GET_transfermarket env f (world s)") (simp add: search_def request_def)
qed

lemma get_tradepile_succeeds:
  assumes "only_bids_fail env s"
  shows "\<exists>n s1. get_tradepile env s = (Inr n, s1)"
proof -
  from assms obtain n where "fst (GET_tradepile env (world s)) = Response 200 (Some n)"
    unfolding only_bids_fail_def by blast
  then show ?thesis
    by (cases "GET_tradepile env (world s)") (simp add: get_tradepile_def request_def)
qed

lemma get_unassigned_succeeds:
  assumes "only_bids_fail env s"
  shows "\<exists>items s1. get_unassigned env s = (Inr items, s1)
           \<and> list_all (\<lambda>item. item_id item \<noteq> None) items"
proof -
  from assms obtain items where
    "fst (GET_purchased_items env (world s)) = Response 200 (Some items)
       \<and> list_all (\<lambda>item. item_id item \<noteq> None) items"
    unfolding only_bids_fail_def by blast
  then show ?thesis
    by (cases "GET_purchased_items env (world s)") (simp add: get_unassigned_def request_def)
qed

lemma find_in_set: "find P xs = Some x \<Longrightarrow> x \<in> set xs"
  by (induction xs) (auto split: if_splits)

lemma auto_sell_player_succeeds:
  assumes "only_bids_fail env s"
  shows "fst (auto_sell_player env p t s) = Inr ()"
proof -
  from get_unassigned_succeeds [OF assms] obtain items s1 where
    gu: "get_unassigned env s = (Inr items, s1)"
    and ids: "list_all (\<lambda>item. item_id item \<noteq> None) items"
    by blast
  have "item_id item \<noteq> None"
    if "find (\<lambda>item. resourceId item = Some (resource_id p)) items = Some item" for item
    using find_in_set [OF that] ids by (simp add: list_all_iff)
  then show ?thesis
    unfolding auto_sell_player_def Let_def using gu
    by (auto split: prod.splits option.splits)
qed

lemma purchase_succeeded_returns:
  assumes "only_bids_fail env s"
  shows "fst (purchase_succeeded env t p s) = Inr True"
proof -
  define s1 where
    "s1 = s\<lparr>stats := (stats s)\<lparr>total_purchases := total_purchases (stats s) + 1,
                                   total_spent := total_spent (stats s) + buy_now_price p\<rparr>\<rparr>"
  have "only_bids_fail env s1"
    using assms only_bids_fail_cong [of s1 s env] by (simp add: s1_def)
  from auto_sell_player_succeeds [OF this]
  have sell: "fst (auto_sell_player env p (t\<lparr>bought := bought t + 1\<rparr>) s1) = Inr ()" .
  have cb: "callback p (buy_now_price p) = None" if "on_purchase s = Some callback" for callback
    using assms that by (simp add: only_bids_fail_def)
  show ?thesis
    unfolding purchase_succeeded_def Let_def s1_def [symmetric]
    using sell cb
    by (auto simp: s1_def split: prod.splits sum.splits option.splits)
qed

lemma buy_candidates_returns:
  "buy_candidates env t ps s = (r, t', s', evs) \<Longrightarrow> only_bids_fail env s \<Longrightarrow> \<exists>b. r = Inr b"
proof (induction ps arbitrary: s r t' s' evs)
  case Nil
  then show ?case by auto
next
  case (Cons p ps)
  from Cons.prems(1) show ?case
  proof (cases rule: buy_candidates_Cons_cases)
    case (credits_raised e s1)
    with get_credits_succeeds [OF Cons.prems(2)] show ?thesis by simp
  next
    case (insufficient b s1)
    then show ?thesis by auto
  next
    case (bought b s1 s2 evs2)
    have "on_purchase s2 = on_purchase s"
      using get_credits_fields [OF bought(1)] buy_now_fields [OF bought(3)] by simp
    then have "only_bids_fail env s2"
      using Cons.prems(2) only_bids_fail_cong by blast
    from purchase_succeeded_returns [OF this, of t p] bought(4) show ?thesis by auto
  next
    case (failed b s1 s2 evs2)
    have "on_purchase (s2\<lparr>stats := (stats s2)\<lparr>failed_purchases :=
                                   failed_purchases (stats s2) + 1\<rparr>\<rparr>) = on_purchase s"
      using get_credits_fields [OF failed(1)] buy_now_fields [OF failed(3)] by simp
    then have "only_bids_fail env (s2\<lparr>stats := (stats s2)\<lparr>failed_purchases :=
                                   failed_purchases (stats s2) + 1\<rparr>\<rparr>)"
      using Cons.prems(2) only_bids_fail_cong by blast
    from Cons.IH [OF failed(4) this] show ?thesis .
  qed
qed

lemma search_and_buy_returns:
  assumes "only_bids_fail env s"
  shows "\<exists>b. result_of (search_and_buy env t s) = Inr b"
  using search_and_buy_tuple [of env t s]
proof (cases rule: search_and_buy_cases)
  case (raised e)
  with search_succeeds [OF assms, of "filter_t t"] show ?thesis by simp
next
  case nothing
  then show ?thesis by auto
next
  case (candidates t2 s2 evs2)
  have "only_bids_fail env s2"
    using assms candidates(5) only_bids_fail_cong by blast
  from buy_candidates_returns [OF candidates(1) this] show ?thesis .
qed

lemma search_targets_returns:
  "search_targets env ts cp s = (r, ts', cp', s', evs) \<Longrightarrow> only_bids_fail env s
     \<Longrightarrow> r = Inr () \<and> state s' = state s"
proof (induction ts arbitrary: cp s r ts' cp' s' evs)
  case Nil
  then show ?case by simp
next
  case (Cons t ts)
  show ?case
  proof (cases "enabled t \<and> \<not> stop_event s")
    case False
    with Cons.prems Cons.IH show ?thesis
      by (auto split: prod.splits if_splits)
  next
    case True
    obtain b where res: "result_of (search_and_buy env t s) = Inr b"
      using search_and_buy_returns [OF Cons.prems(2)] by blast
    obtain r1 t1 s1 evs1 where X: "search_and_buy env t s = (r1, t1, s1, evs1)"
      by (cases "search_and_buy env t s") auto
    have r1: "r1 = Inr b" using res X by (simp add: result_of_def)
    have f: "state s1 = state s" "on_purchase s1 = on_purchase s"
      using search_and_buy_fields [of env t s] X by (simp_all add: state_of_def)
    have obf: "only_bids_fail env s1"
      using Cons.prems(2) f(2) only_bids_fail_cong by blast
    from Cons.prems(1) True X r1 obtain cp1 r2 ts2 cp2 s2 evs2 where
      rest: "search_targets env ts cp1 s1 = (r2, ts2, cp2, s2, evs2)" and out: "r = r2" "s' = s2"
      by (auto split: prod.splits if_splits)
    from Cons.IH [OF rest obf] out f show ?thesis by simp
  qed
qed

lemma check_limits_returns:
  assumes "check_limits env s = (r, s', evs)" and "only_bids_fail env s"
  shows "(\<exists>b. r = Inr b) \<and> state s' = state s \<and> on_purchase s' = on_purchase s"
proof (cases "total_purchases (stats s) \<ge> max_purchases (config s)")
  case True
  with assms(1) show ?thesis by (auto simp: check_limits_def)
next
  case False
  obtain now w where clock: "datetime_now env (world s) = (now, w)"
    by (cases "datetime_now env (world s)")
  define s2 where "s2 = (if ((now - hour_start s) div 1000000) mod 86400 \<ge> 3600
                   then s\<lparr>world := w, hour_start := now, hourly_searches := 0\<rparr>
                   else s\<lparr>world := w\<rparr>)"
  have f2: "state s2 = state s" "on_purchase s2 = on_purchase s" "config s2 = config s"
    by (simp_all add: s2_def)
  have obf: "only_bids_fail env s2"
    using assms(2) f2(2) only_bids_fail_cong by blast
  from get_tradepile_succeeds [OF obf] obtain n s3 where tp: "get_tradepile env s2 = (Inr n, s3)"
    by blast
  have f3: "state s3 = state s2" "on_purchase s3 = on_purchase s2"
    using tp by (auto simp: get_tradepile_def split: prod.splits)
  have "check_limits env s =
      (if hourly_searches s2 \<ge> max_searches_per_hour (config s2) then (Inr False, s2, [])
       else if int n \<ge> max_active_sales (config s3) then (Inr False, s3, [GetTradepile])
       else (Inr True, s3, [GetTradepile]))"
    using False clock tp by (simp add: check_limits_def Let_def s2_def)
  with assms(1) f2 f3 show ?thesis by (auto split: if_splits)
qed

lemma search_loop_iteration_continues:
  assumes "only_bids_fail env s"
  shows "fst (search_loop_iteration env cp s) = Continue
     \<and> state (state_of (search_loop_iteration env cp s)) = state s"
proof (cases "state s = RUNNING")
  case False
  then show ?thesis by (simp add: search_loop_iteration_def state_of_def)
next
  case True
  obtain r s1 evs where cl: "check_limits env s = (r, s1, evs)"
    by (cases "check_limits env s") auto
  from check_limits_returns [OF cl assms] obtain b where
    r: "r = Inr b" and f1: "state s1 = state s" "on_purchase s1 = on_purchase s"
    by blast
  have obf: "only_bids_fail env s1"
    using assms f1(2) only_bids_fail_cong by blast
  obtain r2 ts cp1 s2 evs2 where st: "search_targets env (targets s1) cp s1 = (r2, ts, cp1, s2, evs2)"
    by (cases "search_targets env (targets s1) cp s1") auto
  from search_targets_returns [OF st obf] have r2: "r2 = Inr ()" "state s2 = state s1" by simp_all
  show ?thesis
    using True cl r f1 st r2
    by (simp add: search_loop_iteration_def state_of_def)
qed

lemma purchase_succeeded_calls:
  assumes "purchase_succeeded env t p s = (r, t', s', evs)"
  shows "(on_purchase s \<noteq> None \<longrightarrow> (\<exists>rest. evs = OnPurchase p (buy_now_price p) # rest))
    \<and> (r = Inr True \<longrightarrow> (GetUnassigned \<in> set evs) = auto_sell (config s))"
  using assms
  unfolding purchase_succeeded_def Let_def
  by (auto split: prod.splits sum.splits option.splits if_splits dest!: auto_sell_player_events)

lemma buy_candidates_purchase:
  "buy_candidates env t ps s = (r, t', s', evs) \<Longrightarrow>
     ((\<forall>e\<in>set evs. \<not> is_purchase e) \<and> r \<noteq> Inr True
        \<and> total_purchases (stats s') = total_purchases (stats s)
        \<and> total_spent (stats s') = total_spent (stats s) \<and> bought t' = bought t)
     \<or> (\<exists>pre p post. evs = pre @ BuyNow (trade_id p) (buy_now_price p) True # post
           \<and> p \<in> set ps
           \<and> (\<forall>e\<in>set pre. \<not> is_purchase e) \<and> (\<forall>e\<in>set post. \<not> is_buy e)
           \<and> total_purchases (stats s') = total_purchases (stats s) + 1
           \<and> total_spent (stats s') = total_spent (stats s) + buy_now_price p
           \<and> bought t' = bought t + 1
           \<and> (on_purchase s \<noteq> None \<longrightarrow> (\<exists>rest. post = OnPurchase p (buy_now_price p) # rest))
           \<and> r \<noteq> Inr False
           \<and> (r = Inr True \<longrightarrow> (GetUnassigned \<in> set post) = auto_sell (config s)))"
proof (induction ps arbitrary: s r t' s' evs)
  case Nil
  then show ?case by auto
next
  case (Cons p ps)
  from Cons.prems(1) show ?case
  proof (cases rule: buy_candidates_Cons_cases)
    case (credits_raised e s1)
    then show ?thesis using get_credits_fields [OF credits_raised(1)] by simp
  next
    case (insufficient b s1)
    then show ?thesis using get_credits_fields [OF insufficient(1)] by simp
  next
    case (bought b s1 s2 evs2)
    have f: "stats s2 = stats s" "on_purchase s2 = on_purchase s" "config s2 = config s"
      using get_credits_fields [OF bought(1)] buy_now_fields [OF bought(3)] by simp_all
    have "evs = [GetCredits (Inr b)] @ BuyNow (trade_id p) (buy_now_price p) True # evs2"
      using bought(5) by simp
    moreover have "\<forall>e\<in>set [GetCredits (Inr b)]. \<not> is_purchase e" by simp
    moreover have "\<forall>e\<in>set evs2. \<not> is_buy e"
      using purchase_succeeded_events [OF bought(4)] by simp
    moreover have "total_purchases (stats s') = total_purchases (stats s) + 1"
        "total_spent (stats s') = total_spent (stats s) + buy_now_price p"
        "bought t' = bought t + 1" "r \<noteq> Inr False"
      using purchase_succeeded_fields [OF bought(4)] f by simp_all
    moreover have "on_purchase s \<noteq> None \<longrightarrow> (\<exists>rest. evs2 = OnPurchase p (buy_now_price p) # rest)"
        "r = Inr True \<longrightarrow> (GetUnassigned \<in> set evs2) = auto_sell (config s)"
      using purchase_succeeded_calls [OF bought(4)] f by simp_all
    ultimately show ?thesis by (intro disjI2 exI [of _ "[GetCredits (Inr b)]"] exI [of _ p] exI [of _ evs2]) simp
  next
    case (failed b s1 s2 evs2)
    define s2' where
      "s2' = s2\<lparr>stats := (stats s2)\<lparr>failed_purchases := failed_purchases (stats s2) + 1\<rparr>\<rparr>"
    have f: "total_purchases (stats s2') = total_purchases (stats s)"
        "total_spent (stats s2') = total_spent (stats s)"
        "on_purchase s2' = on_purchase s" "config s2' = config s"
      using get_credits_fields [OF failed(1)] buy_now_fields [OF failed(3)]
      by (simp_all add: s2'_def)
    let ?head = "[GetCredits (Inr b), BuyNow (trade_id p) (buy_now_price p) False,
                  Sleep (buy_delay (config s))]"
    have evs: "evs = ?head @ evs2" using failed(5) by simp
    from Cons.IH [OF failed(4) [folded s2'_def]]
    show ?thesis
    proof (elim disjE exE conjE)
      assume "\<forall>e\<in>set evs2. \<not> is_purchase e" "r \<noteq> Inr True"
        "total_purchases (stats s') = total_purchases (stats s2')"
        "total_spent (stats s') = total_spent (stats s2')" "bought t' = bought t"
      then show ?thesis using f evs by auto
    next
      fix pre q post
      assume a: "evs2 = pre @ BuyNow (trade_id q) (buy_now_price q) True # post" "q \<in> set ps"
        "\<forall>e\<in>set pre. \<not> is_purchase e" "\<forall>e\<in>set post. \<not> is_buy e"
        "total_purchases (stats s') = total_purchases (stats s2') + 1"
        "total_spent (stats s') = total_spent (stats s2') + buy_now_price q"
        "bought t' = bought t + 1"
        "on_purchase s2' \<noteq> None \<longrightarrow> (\<exists>rest. post = OnPurchase q (buy_now_price q) # rest)"
        "r \<noteq> Inr False"
        "r = Inr True \<longrightarrow> (GetUnassigned \<in> set post) = auto_sell (config s2')"
      have "evs = (?head @ pre) @ BuyNow (trade_id q) (buy_now_price q) True # post"
        using evs a(1) by simp
      moreover have "\<forall>e\<in>set (?head @ pre). \<not> is_purchase e" using a(3) by simp
      ultimately show ?thesis
        using a f
        by (intro disjI2 exI [of _ "?head @ pre"] exI [of _ q] exI [of _ post]) simp
    qed
  qed
qed

lemma no_buy_no_purchase: "\<forall>e\<in>set evs. \<not> is_buy e \<Longrightarrow> filter is_purchase evs = []"
  by (auto simp: filter_empty_conv dest: is_purchase_is_buy)

text \<open>
  Claim C5, as amended. For every target, engine state and behaviour of the market, one
  search-and-buy cycle has at most one successful buy, and \<open>total_purchases\<close> grows by
  the number of successful buys. The cycle returns \<open>True\<close> only after a successful buy.
  When a buy succeeds, it is the buy of a returned listing \<open>p\<close>; no buy call follows it (no
  later candidate is tried); \<open>total_spent\<close> has grown by the price of \<open>p\<close> and the target's
  \<open>bought\<close> by one; the purchase callback, when there is one, is called next with \<open>p\<close>
  and its price; the cycle does not return \<open>False\<close>: it returns \<open>True\<close>, or the exception of
  the callback or of auto-sell leaves it, and it does return \<open>True\<close> in every run where the
  callback and the requests other than bids succeed; and when it returns \<open>True\<close>, auto-sell
  was invoked exactly if \<open>auto_sell\<close> is configured.
\<close>

theorem one_purchase_per_cycle:
  "length (filter is_purchase (events_of (search_and_buy env t s))) \<le> 1
   \<and> total_purchases (stats (state_of (search_and_buy env t s)))
       = total_purchases (stats s)
         + int (length (filter is_purchase (events_of (search_and_buy env t s))))
   \<and> (result_of (search_and_buy env t s) = Inr True
        \<longrightarrow> (\<exists>e\<in>set (events_of (search_and_buy env t s)). is_purchase e))
   \<and> ((\<exists>e\<in>set (events_of (search_and_buy env t s)). is_purchase e) \<longrightarrow>
        (\<exists>pre p post.
           events_of (search_and_buy env t s)
             = pre @ BuyNow (trade_id p) (buy_now_price p) True # post
           \<and> p \<in> set (listings_returned env t s)
           \<and> (\<forall>e\<in>set pre. \<not> is_purchase e) \<and> (\<forall>e\<in>set post. \<not> is_buy e)
           \<and> total_spent (stats (state_of (search_and_buy env t s)))
               = total_spent (stats s) + buy_now_price p
           \<and> bought (target_of (search_and_buy env t s)) = bought t + 1
           \<and> (on_purchase s \<noteq> None \<longrightarrow> (\<exists>rest. post = OnPurchase p (buy_now_price p) # rest))
           \<and> result_of (search_and_buy env t s) \<noteq> Inr False
           \<and> (only_bids_fail env s \<longrightarrow> result_of (search_and_buy env t s) = Inr True)
           \<and> (result_of (search_and_buy env t s) = Inr True
                \<longrightarrow> (GetUnassigned \<in> set post) = auto_sell (config s))))"
  using search_and_buy_tuple [of env t s]
proof (cases rule: search_and_buy_cases)
  case (raised e)
  then show ?thesis by simp
next
  case nothing
  then show ?thesis by simp
next
  case (candidates t2 s2 evs2)
  let ?X = "search_and_buy env t s"
  have tp: "total_purchases (stats s2) = total_purchases (stats s)"
      "total_spent (stats s2) = total_spent (stats s)"
    using candidates(7) by simp_all
  from buy_candidates_purchase [OF candidates(1)]
  show ?thesis
  proof (elim disjE exE conjE)
    assume a: "\<forall>e\<in>set evs2. \<not> is_purchase e" "result_of ?X \<noteq> Inr True"
      "total_purchases (stats (state_of ?X)) = total_purchases (stats s2)"
    have "filter is_purchase (events_of ?X) = []"
      using a(1) candidates(2) by (simp add: filter_empty_conv)
    moreover have "\<not> (\<exists>e\<in>set (events_of ?X). is_purchase e)"
      using a(1) candidates(2) by simp
    ultimately show ?thesis using a(2,3) tp by simp
  next
    fix pre p post
    assume a: "evs2 = pre @ BuyNow (trade_id p) (buy_now_price p) True # post"
      "p \<in> set (snipeable t (listings_returned env t s))"
      "\<forall>e\<in>set pre. \<not> is_purchase e" "\<forall>e\<in>set post. \<not> is_buy e"
      "total_purchases (stats (state_of ?X)) = total_purchases (stats s2) + 1"
      "total_spent (stats (state_of ?X)) = total_spent (stats s2) + buy_now_price p"
      "bought (target_of ?X) = bought t2 + 1"
      "on_purchase s2 \<noteq> None \<longrightarrow> (\<exists>rest. post = OnPurchase p (buy_now_price p) # rest)"
      "result_of ?X \<noteq> Inr False"
      "result_of ?X = Inr True \<longrightarrow> (GetUnassigned \<in> set post) = auto_sell (config s2)"
    have split: "events_of ?X
        = (Search (filter_t t) # pre) @ BuyNow (trade_id p) (buy_now_price p) True # post"
      using candidates(2) a(1) by simp
    have pre: "\<forall>e\<in>set (Search (filter_t t) # pre). \<not> is_purchase e" using a(3) by simp
    have "filter is_purchase (events_of ?X) = [BuyNow (trade_id p) (buy_now_price p) True]"
      using split pre no_buy_no_purchase [OF a(4)] by (simp add: filter_empty_conv)
    then have one: "length (filter is_purchase (events_of ?X)) = 1" by simp
    have some: "\<exists>e\<in>set (events_of ?X). is_purchase e" using split by auto
    have p: "p \<in> set (listings_returned env t s)" using snipeable_price [OF a(2)] by simp
    have normal: "only_bids_fail env s \<longrightarrow> result_of ?X = Inr True"
      using search_and_buy_returns [of env s t] a(9) by auto
    have shape: "\<exists>pre p post.
           events_of ?X = pre @ BuyNow (trade_id p) (buy_now_price p) True # post
           \<and> p \<in> set (listings_returned env t s)
           \<and> (\<forall>e\<in>set pre. \<not> is_purchase e) \<and> (\<forall>e\<in>set post. \<not> is_buy e)
           \<and> total_spent (stats (state_of ?X)) = total_spent (stats s) + buy_now_price p
           \<and> bought (target_of ?X) = bought t + 1
           \<and> (on_purchase s \<noteq> None \<longrightarrow> (\<exists>rest. post = OnPurchase p (buy_now_price p) # rest))
           \<and> result_of ?X \<noteq> Inr False
           \<and> (only_bids_fail env s \<longrightarrow> result_of ?X = Inr True)
           \<and> (result_of ?X = Inr True \<longrightarrow> (GetUnassigned \<in> set post) = auto_sell (config s))"
      using split p pre a(4,6,7,8,9,10) tp candidates(3,5,8) normal
      by (intro exI [of _ "Search (filter_t t) # pre"] exI [of _ p] exI [of _ post]) simp
    from one some shape a(5) tp show ?thesis by simp
  qed
qed

text \<open>
  The example of the specification: listings at 900 and 1,200 (and a later one at 950)
  under a ceiling of 1,000. With a purchase callback that returns, the cycle buys the
  listing at 900, notifies, invokes auto-sell and returns \<open>True\<close>; the listing at 950 is
  not tried.
\<close>

theorem one_purchase_per_cycle_witness:
  "result_of (search_and_buy
       (example_market 50000 (\<lambda>tid. Response 200 (Some True)) (Response 200 (Some [])))
       example_target (example_engine\<lparr>on_purchase := Some (\<lambda>p price. None)\<rparr>)) = Inr True
   \<and> events_of (search_and_buy
       (example_market 50000 (\<lambda>tid. Response 200 (Some True)) (Response 200 (Some [])))
       example_target (example_engine\<lparr>on_purchase := Some (\<lambda>p price. None)\<rparr>))
     = [Search SearchFilter_init, GetCredits (Inr 50000), BuyNow 1 900 True,
        OnPurchase (listing 1 900) 900, GetUnassigned]
   \<and> length (filter is_purchase (events_of (search_and_buy
       (example_market 50000 (\<lambda>tid. Response 200 (Some True)) (Response 200 (Some [])))
       example_target (example_engine\<lparr>on_purchase := Some (\<lambda>p price. None)\<rparr>)))) \<le> 1
   \<and> total_purchases (stats (state_of (search_and_buy
       (example_market 50000 (\<lambda>tid. Response 200 (Some True)) (Response 200 (Some [])))
       example_target (example_engine\<lparr>on_purchase := Some (\<lambda>p price. None)\<rparr>)))) = 1
   \<and> (\<exists>pre p post.
         events_of (search_and_buy
             (example_market 50000 (\<lambda>tid. Response 200 (Some True)) (Response 200 (Some [])))
             example_target (example_engine\<lparr>on_purchase := Some (\<lambda>p price. None)\<rparr>))
           = pre @ BuyNow (trade_id p) (buy_now_price p) True # post
         \<and> (\<exists>rest. post = OnPurchase p (buy_now_price p) # rest)
         \<and> (GetUnassigned \<in> set post) = True)"
proof -
  let ?M = "example_market 50000 (\<lambda>tid. Response 200 (Some True)) (Response 200 (Some []))"
  let ?E = "example_engine\<lparr>on_purchase := Some (\<lambda>p price. None)\<rparr>"
  let ?X = "search_and_buy ?M example_target ?E"
  have res: "result_of ?X = Inr True"
    by (simp add: cycle_defs example_defs)
  have evs: "events_of ?X
     = [Search SearchFilter_init, GetCredits (Inr 50000), BuyNow 1 900 True,
        OnPurchase (listing 1 900) 900, GetUnassigned]"
    by (simp add: cycle_defs example_defs)
  have some: "\<exists>e\<in>set (events_of ?X). is_purchase e"
    by (simp add: evs)
  have cfg: "on_purchase ?E \<noteq> None" "auto_sell (config ?E) = True"
      "total_purchases (stats ?E) = 0"
    by (simp_all add: example_defs)
  have quiet: "only_bids_fail ?M ?E"
    by (simp add: only_bids_fail_def example_defs)
  from one_purchase_per_cycle [of ?M example_target ?E] res some cfg quiet
  have "length (filter is_purchase (events_of ?X)) \<le> 1"
    "total_purchases (stats (state_of ?X)) = 1"
    "\<exists>pre p post. events_of ?X = pre @ BuyNow (trade_id p) (buy_now_price p) True # post
         \<and> (\<exists>rest. post = OnPurchase p (buy_now_price p) # rest)
         \<and> (GetUnassigned \<in> set post) = True"
    by (simp_all add: evs) blast
  with res evs show ?thesis by simp
qed

text \<open>
  Claim C5 as stated fails where it says that the cycle returns \<open>True\<close> on the first
  successful buy: when the request for the unassigned pile in auto-sell is answered with
  status 426, the buy at 900 has succeeded and is counted, and \<open>CaptchaError\<close> leaves the
  cycle instead of the result \<open>True\<close>.
\<close>

theorem purchase_then_exception_counterexample:
  "events_of (search_and_buy
       (example_market 50000 (\<lambda>tid. Response 200 (Some True)) (Response 426 None))
       example_target example_engine)
     = [Search SearchFilter_init, GetCredits (Inr 50000), BuyNow 1 900 True, GetUnassigned]
   \<and> result_of (search_and_buy
       (example_market 50000 (\<lambda>tid. Response 200 (Some True)) (Response 426 None))
       example_target example_engine) = Inl CaptchaError
   \<and> result_of (search_and_buy
       (example_market 50000 (\<lambda>tid. Response 200 (Some True)) (Response 426 None))
       example_target example_engine) \<noteq> Inr True
   \<and> total_purchases (stats (state_of (search_and_buy
       (example_market 50000 (\<lambda>tid. Response 200 (Some True)) (Response 426 None))
       example_target example_engine))) = 1"
  by (simp add: cycle_defs example_defs)

subsection \<open>The pass over the targets\<close>



subsection \<open>Pause and resume\<close>

text \<open>
  Claim C10. \<open>pause\<close> and \<open>resume\<close> do not look at the current state: for every engine
  and every state \<open>st\<close> it may be in (\<open>STOPPED\<close> and \<open>ERROR\<close> included), \<open>pause\<close> sets the
  state to \<open>PAUSED\<close> and \<open>resume\<close> sets it to \<open>RUNNING\<close>; so also on a freshly constructed
  engine that was never started and has no loop task, and \<open>resume\<close> creates none.
\<close>

theorem pause_resume_unconditional:
  "state (pause s) = PAUSED \<and> state (resume s) = RUNNING
   \<and> state (pause (s\<lparr>state := st\<rparr>)) = PAUSED \<and> state (resume (s\<lparr>state := st\<rparr>)) = RUNNING
   \<and> state (pause (Sniper_init cfg purchase_cb error_cb now w)) = PAUSED
   \<and> state (resume (Sniper_init cfg purchase_cb error_cb now w)) = RUNNING
   \<and> search_task (Sniper_init cfg purchase_cb error_cb now w) = False
   \<and> search_task (resume (Sniper_init cfg purchase_cb error_cb now w)) = False"
  by (simp add: pause_def resume_def Sniper_init_def)

subsection \<open>\<open>buy_now\<close> never raises\<close>

lemma buy_now_result:
  "fst (buy_now env tid pr s) = (fst (PUT_trade_bid env tid pr (world s)) = Response 200 (Some True))"
  by (auto simp: buy_now_def request_def split: prod.splits http.splits option.splits)

lemma search_and_buy_failed_counted:
  "failed_purchases (stats (state_of (search_and_buy env t s)))
     = failed_purchases (stats s)
       + int (length (filter is_failed_buy (events_of (search_and_buy env t s))))"
  using search_and_buy_tuple [of env t s]
proof (cases rule: search_and_buy_cases)
  case (raised e)
  then show ?thesis by simp
next
  case nothing
  then show ?thesis by simp
next
  case (candidates t2 s2 evs2)
  from buy_candidates_failed_counted [OF candidates(1)] candidates show ?thesis by simp
qed

text \<open>
  Claim C9. \<open>buy_now\<close> always returns a truth value, and it is \<open>True\<close> only when the bid
  is answered with status 200 and a non-empty \<open>auctionInfo\<close>: a transport failure, an
  undecodable body and every other status (426 captcha, 458 transfer ban and 429 rate
  limit among them) give \<open>False\<close>. A search-and-buy cycle never changes the state of the
  engine, and it counts every buy that returned \<open>False\<close> in \<open>failed_purchases\<close>. And in a
  run where nothing but bids can meet a provider condition, whatever the bids are answered
  with, an iteration of the search loop ends with \<open>continue\<close> (never \<open>break\<close>) and leaves
  the state of the engine as it was: it does not become \<open>ERROR\<close>.
\<close>

theorem buy_now_never_raises:
  "fst (buy_now env tid pr s)
     = (fst (PUT_trade_bid env tid pr (world s)) = Response 200 (Some True))
   \<and> state (state_of (search_and_buy env t s)) = state s
   \<and> failed_purchases (stats (state_of (search_and_buy env t s)))
       = failed_purchases (stats s)
         + int (length (filter is_failed_buy (events_of (search_and_buy env t s))))
   \<and> (only_bids_fail env s \<longrightarrow>
        fst (search_loop_iteration env cp s) = Continue
        \<and> state (state_of (search_loop_iteration env cp s)) = state s)"
  using buy_now_result [of env tid pr s] search_and_buy_fields [of env t s]
    search_and_buy_failed_counted [of env t s] search_loop_iteration_continues [of env s cp]
  by blast

text \<open>
  Every bid is answered with the captcha status 426: \<open>buy_now\<close> returns \<open>False\<close>, both
  candidates are tried and counted as failed, the iteration of the loop continues and the
  engine stays \<open>RUNNING\<close>.
\<close>

theorem buy_now_never_raises_witness:
  "only_bids_fail (example_market 50000 (\<lambda>tid. Response 426 None) (Response 200 (Some [])))
      example_engine
   \<and> fst (buy_now (example_market 50000 (\<lambda>tid. Response 426 None) (Response 200 (Some [])))
            1 900 example_engine) = False
   \<and> events_of (search_and_buy
        (example_market 50000 (\<lambda>tid. Response 426 None) (Response 200 (Some [])))
        example_target example_engine)
      = [Search SearchFilter_init, GetCredits (Inr 50000), BuyNow 1 900 False, Sleep (1 / 5),
         GetCredits (Inr 50000), BuyNow 4 950 False, Sleep (1 / 5)]
   \<and> failed_purchases (stats (state_of (search_and_buy
        (example_market 50000 (\<lambda>tid. Response 426 None) (Response 200 (Some [])))
        example_target example_engine))) = 2
   \<and> fst (search_loop_iteration
        (example_market 50000 (\<lambda>tid. Response 426 None) (Response 200 (Some [])))
        0 example_engine) = Continue
   \<and> state (state_of (search_loop_iteration
        (example_market 50000 (\<lambda>tid. Response 426 None) (Response 200 (Some [])))
        0 example_engine)) = RUNNING"
proof -
  let ?M = "example_market 50000 (\<lambda>tid. Response 426 None) (Response 200 (Some []))"
  have quiet: "only_bids_fail ?M example_engine"
    by (simp add: only_bids_fail_def example_defs)
  have bid: "fst (PUT_trade_bid ?M 1 900 (world example_engine)) \<noteq> Response 200 (Some True)"
    by (simp add: example_defs)
  have evs: "events_of (search_and_buy ?M example_target example_engine)
      = [Search SearchFilter_init, GetCredits (Inr 50000), BuyNow 1 900 False, Sleep (1 / 5),
         GetCredits (Inr 50000), BuyNow 4 950 False, Sleep (1 / 5)]"
    by (simp add: cycle_defs example_defs)
  have init: "failed_purchases (stats example_engine) = 0" "state example_engine = RUNNING"
    by (simp_all add: example_defs)
  from buy_now_never_raises [of ?M 1 900 example_engine example_target 0] quiet bid evs init
  show ?thesis by simp
qed

end
